theory Spec2Isabelle
  imports Main
begin

text \<open>
  A model of \<^verbatim>\<open>extract_pdf.py\<close>, the PDF to Markdown extractor: its functions as HOL
  functions over an explicit environment (file system, home directory, extraction
  library) and an explicit state (standard input, what is shown, files written), with
  exceptions as values. The library functions the program calls (\<^verbatim>\<open>str\<close> methods,
  \<^verbatim>\<open>int\<close>, \<^verbatim>\<open>pathlib\<close> on a POSIX system, \<^verbatim>\<open>os.path.expanduser\<close>) are written out as
  far as the program depends on them.
\<close>

section \<open>Python strings\<close>

text \<open>
  Strings are \<^typ>\<open>string\<close> (lists of 8-bit characters). All literals of the program are
  ASCII, and the model reads \<^verbatim>\<open>str.strip\<close>, \<^verbatim>\<open>str.lower\<close> and \<^verbatim>\<open>int\<close> on ASCII text:
  white space and digits outside ASCII are not recognised as such.
\<close>

definition newline :: char where
  "newline = CHR 0x0A"

definition dquote :: char where
  "dquote = CHR 0x22"

definition squote :: char where
  "squote = CHR 0x27"

text \<open>\<^verbatim>\<open>str.isspace\<close> on ASCII: tab, LF, VT, FF, CR, the separators 0x1C..0x1F, space.\<close>

definition is_space :: "char \<Rightarrow> bool" where
  "is_space c = (c \<in> set [CHR 0x09, CHR 0x0A, CHR 0x0B, CHR 0x0C, CHR 0x0D,
                           CHR 0x1C, CHR 0x1D, CHR 0x1E, CHR 0x1F, CHR 0x20])"

text \<open>\<^verbatim>\<open>s.strip()\<close>\<close>

definition strip :: "string \<Rightarrow> string" where
  "strip s = rev (dropWhile is_space (rev (dropWhile is_space s)))"

text \<open>\<^verbatim>\<open>s.rstrip('/')\<close>, as \<^verbatim>\<open>os.path.expanduser\<close> applies it to the home directory.\<close>

definition rstrip_slash :: "string \<Rightarrow> string" where
  "rstrip_slash s = rev (dropWhile (\<lambda>c. c = CHR ''/'') (rev s))"

text \<open>\<^verbatim>\<open>s.lower()\<close> on ASCII: the letters A..Z move to a..z, every other character stays.\<close>

text \<open>\<^verbatim>\<open>ord(c)\<close> and \<^verbatim>\<open>chr(n)\<close>\<close>

definition ord :: "char \<Rightarrow> nat" where
  "ord c = of_char c"

definition chr :: "nat \<Rightarrow> char" where
  "chr n = char_of n"

definition lower_char :: "char \<Rightarrow> char" where
  "lower_char c = (if 65 \<le> ord c \<and> ord c \<le> 90 then chr (ord c + 32) else c)"

definition lower :: "string \<Rightarrow> string" where
  "lower s = map lower_char s"

text \<open>\<^verbatim>\<open>s.startswith(p)\<close> and \<^verbatim>\<open>s.endswith(p)\<close>\<close>

definition startswith :: "string \<Rightarrow> string \<Rightarrow> bool" where
  "startswith s p = (take (length p) s = p)"

definition endswith :: "string \<Rightarrow> string \<Rightarrow> bool" where
  "endswith s p = (length p \<le> length s \<and> drop (length s - length p) s = p)"

text \<open>
  Python slices with constant bounds. \<^verbatim>\<open>s[1:-1]\<close> runs from index 1 to index
  \<^verbatim>\<open>len(s) - 1\<close> (exclusive) and is empty when that range is empty; \<^verbatim>\<open>s[k:]\<close> drops
  the first \<open>k\<close> characters.
\<close>

definition slice_1_m1 :: "string \<Rightarrow> string" where
  "slice_1_m1 s = take (length s - 1 - 1) (drop 1 s)"

definition slice_from :: "nat \<Rightarrow> string \<Rightarrow> string" where
  "slice_from k s = drop k s"

text \<open>\<^verbatim>\<open>sep.join(xs)\<close>\<close>

fun join :: "string \<Rightarrow> string list \<Rightarrow> string" where
  "join sep [] = []"
| "join sep [x] = x"
| "join sep (x # y # ys) = x @ sep @ join sep (y # ys)"

text \<open>\<^verbatim>\<open>s.split(c)\<close> for a one-character separator: never returns the empty list.\<close>

fun split_on :: "char \<Rightarrow> string \<Rightarrow> string list" where
  "split_on c [] = [[]]"
| "split_on c (x # xs) =
     (if x = c then [] # split_on c xs
      else (case split_on c xs of [] \<Rightarrow> [[x]] | y # ys \<Rightarrow> (x # y) # ys))"

text \<open>\<^verbatim>\<open>s.rfind('.')\<close>: the index of the last dot, or \<open>None\<close> where Python returns -1.\<close>

fun rfind_dot :: "string \<Rightarrow> nat option" where
  "rfind_dot [] = None"
| "rfind_dot (c # cs) =
     (case rfind_dot cs of
        Some i \<Rightarrow> Some (Suc i)
      | None \<Rightarrow> (if c = CHR ''.'' then Some 0 else None))"

text \<open>\<^verbatim>\<open>s.find('/', 1)\<close>: the index of the first slash at position 1 or later.\<close>

fun find_slash_from :: "nat \<Rightarrow> string \<Rightarrow> nat option" where
  "find_slash_from k [] = None"
| "find_slash_from k (c # cs) =
     (if k = 0 \<and> c = CHR ''/'' then Some 0
      else map_option Suc (find_slash_from (k - 1) cs))"

subsection \<open>Decimal numbers\<close>

definition digit_char :: "nat \<Rightarrow> char" where
  "digit_char d = chr (48 + d)"

text \<open>\<^verbatim>\<open>str(n)\<close> for a natural number.\<close>

fun str_nat :: "nat \<Rightarrow> string" where
  "str_nat n = (if n < 10 then [digit_char n] else str_nat (n div 10) @ [digit_char (n mod 10)])"

declare str_nat.simps [simp del]

text \<open>The format \<^verbatim>\<open>{i:2d}\<close>: right-aligned in a field of width 2.\<close>

definition fmt_2d :: "nat \<Rightarrow> string" where
  "fmt_2d n = replicate (2 - length (str_nat n)) CHR '' '' @ str_nat n"

definition is_digit :: "char \<Rightarrow> bool" where
  "is_digit c = (48 \<le> ord c \<and> ord c \<le> 57)"

definition digit_val :: "char \<Rightarrow> int" where
  "digit_val c = int (ord c) - 48"

text \<open>
  The digits of an integer literal as \<^verbatim>\<open>int(s)\<close> reads them: a non-empty run of digits
  in which single underscores may stand between two digits. The accumulator is the value
  read so far; \<open>None\<close> is a malformed literal.
\<close>

fun int_digits :: "int \<Rightarrow> string \<Rightarrow> int option" where
  "int_digits acc [] = Some acc"
| "int_digits acc [c] = (if is_digit c then Some (10 * acc + digit_val c) else None)"
| "int_digits acc (c # d # cs) =
     (if is_digit c then int_digits (10 * acc + digit_val c) (d # cs)
      else if c = CHR ''_'' \<and> is_digit d then int_digits acc (d # cs)
      else None)"

datatype error = PermissionError | ValueError | EOFError | OtherError string

text \<open>
  \<^verbatim>\<open>int(s)\<close> for a string: surrounding whitespace, an optional sign, then the digits;
  anything else raises \<^verbatim>\<open>ValueError\<close>.
\<close>

definition int_body :: "string \<Rightarrow> int option" where
  "int_body s = (case s of [] \<Rightarrow> None | c # cs \<Rightarrow> if is_digit c then int_digits 0 s else None)"

definition py_int :: "string \<Rightarrow> error + int" where
  "py_int s =
     (case strip s of
        [] \<Rightarrow> Inl ValueError
      | c # cs \<Rightarrow>
          (if c = CHR ''-'' then (case int_body cs of None \<Rightarrow> Inl ValueError | Some v \<Rightarrow> Inr (- v))
           else if c = CHR ''+'' then (case int_body cs of None \<Rightarrow> Inl ValueError | Some v \<Rightarrow> Inr v)
           else (case int_body (c # cs) of None \<Rightarrow> Inl ValueError | Some v \<Rightarrow> Inr v)))"

subsection \<open>Shell-style name patterns\<close>

text \<open>
  \<^verbatim>\<open>fnmatch\<close> on a POSIX system, for patterns made of literal characters, \<^verbatim>\<open>*\<close> (any
  run of characters) and \<^verbatim>\<open>?\<close> (any one character); the comparison is case-sensitive.
  The only pattern the program uses is \<^verbatim>\<open>*.pdf\<close>.
\<close>

fun glob_match :: "string \<Rightarrow> string \<Rightarrow> bool" where
  "glob_match [] s = (s = [])"
| "glob_match (p # ps) [] = (p = CHR ''*'' \<and> glob_match ps [])"
| "glob_match (p # ps) (c # cs) =
     (if p = CHR ''*'' then glob_match ps (c # cs) \<or> glob_match (p # ps) cs
      else if p = CHR ''?'' then glob_match ps cs
      else p = c \<and> glob_match ps cs)"

section \<open>Paths\<close>

text \<open>
  A \<^verbatim>\<open>pathlib\<close> path on a POSIX system, as the library parses it: the root (empty, one
  slash or two slashes) and the list of name components.
\<close>

record path =
  root :: string
  parts :: "string list"

text \<open>
  \<^verbatim>\<open>Path(s)\<close>: the root is read off the leading slashes (exactly two slashes are kept as
  a root of their own); empty components and \<^verbatim>\<open>.\<close> components are dropped.
\<close>

definition Path :: "string \<Rightarrow> path" where
  "Path s =
     \<lparr>root = (if \<not> startswith s ''/'' then []
              else if \<not> startswith (drop 1 s) ''/'' \<or> startswith (drop 2 s) ''/'' then ''/''
              else ''//''),
      parts = filter (\<lambda>x. x \<noteq> [] \<and> x \<noteq> ''.'') (split_on CHR ''/'' s)\<rparr>"

text \<open>\<^verbatim>\<open>str(p)\<close>\<close>

definition py_str :: "path \<Rightarrow> string" where
  "py_str p = (let body = root p @ join ''/'' (parts p) in if body = [] then ''.'' else body)"

text \<open>\<^verbatim>\<open>p.name\<close>: the last component, empty when there is none.\<close>

definition name :: "path \<Rightarrow> string" where
  "name p = (if parts p = [] then [] else last (parts p))"


text \<open>
  \<^verbatim>\<open>p.suffix\<close>: the name from its last dot on, when that dot is neither the first nor
  the last character of the name (\<^verbatim>\<open>i = name.rfind('.')\<close>, \<^verbatim>\<open>0 < i < len(name) - 1\<close>).
\<close>

definition suffix :: "path \<Rightarrow> string" where
  "suffix p =
     (case rfind_dot (name p) of
        None \<Rightarrow> []
      | Some i \<Rightarrow> if 0 < i \<and> i < length (name p) - 1 then drop i (name p) else [])"


text \<open>
  \<^verbatim>\<open>p.with_suffix(suf)\<close>: \<^verbatim>\<open>ValueError\<close> for a suffix with a slash, one that does not
  start with a dot or is a lone dot, and for a path with an empty name; otherwise the old
  suffix is cut from the name and the new one appended.
\<close>

definition with_suffix :: "path \<Rightarrow> string \<Rightarrow> error + path" where
  "with_suffix p suf =
     (if CHR ''/'' \<in> set suf then Inl ValueError
      else if (suf \<noteq> [] \<and> \<not> startswith suf ''.'') \<or> suf = ''.'' then Inl ValueError
      else if name p = [] then Inl ValueError
      else Inr (p\<lparr>parts := butlast (parts p) @
                  [if suffix p = [] then name p @ suf
                   else take (length (name p) - length (suffix p)) (name p) @ suf]\<rparr>))"

text \<open>\<^verbatim>\<open>p.relative_to(other)\<close>: \<^verbatim>\<open>ValueError\<close> unless \<open>other\<close> is \<open>p\<close> or an ancestor of it.\<close>

definition relative_to :: "path \<Rightarrow> path \<Rightarrow> error + path" where
  "relative_to p other =
     (if root p = root other \<and> take (length (parts other)) (parts p) = parts other
      then Inr \<lparr>root = [], parts = drop (length (parts other)) (parts p)\<rparr>
      else Inl ValueError)"

section \<open>The environment and the state of a run\<close>

text \<open>
  What the program reads from its surroundings and never changes: the home directory and
  the user database (for \<^verbatim>\<open>~\<close> expansion), the working directory, the file system's
  answers, and the extraction library.

  \<^item> \<open>fs_walk d\<close> is the sequence of entries that a recursive traversal below \<open>d\<close> meets,
    in the traversal's own order; an \<open>Inl e\<close> stands for the exception \<open>e\<close> raised by the
    lazy traversal at that point.
  \<^item> \<open>fs_exists p\<close> is \<^verbatim>\<open>p.exists()\<close>, taken to answer without raising.
  \<^item> \<open>fs_is_file p\<close> is \<^verbatim>\<open>p.is_file()\<close>, which raises (\<open>Inl\<close>) where the file cannot be
    examined.
  \<^item> \<open>fs_open_w s\<close> is \<open>None\<close> when the file \<open>s\<close> can be opened and written, and
    \<open>Some msg\<close> when doing so raises an exception whose text is \<open>msg\<close>.
  \<^item> \<open>to_markdown s\<close> is \<^verbatim>\<open>pymupdf4llm.to_markdown(s)\<close>: \<open>Inr\<close> the text, or \<open>Inl msg\<close> for
    a raised \<^verbatim>\<open>Exception\<close> whose text is \<open>msg\<close>.
\<close>

record env =
  home_dir :: string
  pw_dir :: "string \<Rightarrow> string option"
  cwd :: string
  fs_exists :: "path \<Rightarrow> bool"
  fs_is_file :: "path \<Rightarrow> error + bool"
  fs_walk :: "path \<Rightarrow> (error + path) list"
  fs_open_w :: "string \<Rightarrow> string option"
  to_markdown :: "string \<Rightarrow> string + string"

text \<open>
  What a run changes: the lines still to be read from standard input, what has been
  shown (printed lines and \<^verbatim>\<open>input\<close> prompts, oldest first), and the files written
  (name and content).
\<close>

datatype out = Print string | Prompt string

record world =
  stdin :: "string list"
  stdout :: "out list"
  written :: "(string \<times> string) list"

definition print :: "string \<Rightarrow> world \<Rightarrow> world" where
  "print s w = w\<lparr>stdout := stdout w @ [Print s]\<rparr>"

text \<open>\<^verbatim>\<open>input(prompt)\<close>: shows the prompt, then reads a line; \<^verbatim>\<open>EOFError\<close> at end of input.\<close>

definition py_input :: "string \<Rightarrow> world \<Rightarrow> (error + string) \<times> world" where
  "py_input prompt w =
     (case stdin w of
        [] \<Rightarrow> (Inl EOFError, w\<lparr>stdout := stdout w @ [Prompt prompt]\<rparr>)
      | l # ls \<Rightarrow> (Inr l, w\<lparr>stdin := ls, stdout := stdout w @ [Prompt prompt]\<rparr>))"

text \<open>
  \<^verbatim>\<open>os.path.expanduser(s)\<close>: a string that does not start with \<^verbatim>\<open>~\<close> is returned as it
  is; \<^verbatim>\<open>~\<close> up to the first slash names a user (the current one when nothing follows the
  tilde), whose home directory, without trailing slashes, replaces that part; an unknown
  user leaves the string alone. \<open>home_dir\<close> is the current user's home directory as the
  library finds it.
\<close>

definition expanduser :: "env \<Rightarrow> string \<Rightarrow> string" where
  "expanduser e s =
     (if \<not> startswith s ''~'' then s
      else
        let i = (case find_slash_from 1 s of None \<Rightarrow> length s | Some j \<Rightarrow> j);
            userhome = (if i = 1 then Some (home_dir e) else pw_dir e (take (i - 1) (drop 1 s)))
        in case userhome of
             None \<Rightarrow> s
           | Some h \<Rightarrow> (let r = rstrip_slash h @ drop i s in if r = [] then ''/'' else r))"

text \<open>\<^verbatim>\<open>Path.home()\<close>\<close>

definition path_home :: "env \<Rightarrow> path" where
  "path_home e = Path (expanduser e ''~'')"

text \<open>\<^verbatim>\<open>p.absolute()\<close>: a path without a root is placed below the working directory.\<close>

definition absolute :: "env \<Rightarrow> path \<Rightarrow> path" where
  "absolute e p =
     (if root p \<noteq> [] then p
      else \<lparr>root = root (Path (cwd e)), parts = parts (Path (cwd e)) @ parts p\<rparr>)"

text \<open>
  \<^verbatim>\<open>d.rglob(pat)\<close>: of the entries below \<open>d\<close>, those whose name matches the pattern, in
  traversal order; an exception of the traversal stays where it is raised.
\<close>

definition rglob :: "env \<Rightarrow> path \<Rightarrow> string \<Rightarrow> (error + path) list" where
  "rglob e d pat =
     filter (\<lambda>x. case x of Inl _ \<Rightarrow> True | Inr p \<Rightarrow> glob_match pat (name p)) (fs_walk e d)"

section \<open>The program\<close>

subsection \<open>Directory search\<close>

text \<open>
  The loop of \<^verbatim>\<open>find_pdf_files\<close> over the lazy sequence \<^verbatim>\<open>search_dir.rglob("*.pdf")\<close>.
  The list \<open>pdf_files\<close> is appended to in place, so it keeps its entries when an
  exception leaves the loop: the result is the exception (if any) and the list as it is
  then. The loop ends at the end of the sequence, at the \<^verbatim>\<open>break\<close> once 20 files are
  collected, or at the first exception, raised by the traversal or by \<^verbatim>\<open>is_file\<close>.
\<close>

fun find_loop :: "env \<Rightarrow> (error + path) list \<Rightarrow> path list \<Rightarrow> error option \<times> path list" where
  "find_loop e [] pdf_files = (None, pdf_files)"
| "find_loop e (Inl ex # rest) pdf_files = (Some ex, pdf_files)"
| "find_loop e (Inr pdf_file # rest) pdf_files =
     (case fs_is_file e pdf_file of
        Inl ex \<Rightarrow> (Some ex, pdf_files)
      | Inr False \<Rightarrow> find_loop e rest pdf_files
      | Inr True \<Rightarrow>
          (if length (pdf_files @ [pdf_file]) \<ge> 20 then (None, pdf_files @ [pdf_file])
           else find_loop e rest (pdf_files @ [pdf_file])))"

text \<open>
  \<^verbatim>\<open>find_pdf_files(search_dir=None)\<close>: \<^verbatim>\<open>except PermissionError: pass\<close> around the whole
  loop; any other exception leaves the function.
\<close>

definition search_root :: "env \<Rightarrow> string option \<Rightarrow> path" where
  "search_root e search_dir = (case search_dir of None \<Rightarrow> path_home e | Some s \<Rightarrow> Path s)"

definition find_pdf_files :: "env \<Rightarrow> string option \<Rightarrow> error + path list" where
  "find_pdf_files e search_dir =
     (case find_loop e (rglob e (search_root e search_dir) ''*.pdf'') [] of
        (None, pdf_files) \<Rightarrow> Inr pdf_files
      | (Some ex, pdf_files) \<Rightarrow> if ex = PermissionError then Inr pdf_files else Inl ex)"

subsection \<open>The picklist\<close>

text \<open>The display of one entry: relative to the home directory where that is possible.\<close>

definition display_path :: "env \<Rightarrow> path \<Rightarrow> string" where
  "display_path e pdf_file =
     (case relative_to pdf_file (path_home e) of
        Inr rel_path \<Rightarrow> ''~/'' @ py_str rel_path
      | Inl _ \<Rightarrow> py_str pdf_file)"

definition entry_line :: "env \<Rightarrow> nat \<Rightarrow> path \<Rightarrow> string" where
  "entry_line e i pdf_file = fmt_2d i @ ''. '' @ display_path e pdf_file"

text \<open>The \<^verbatim>\<open>for i, pdf_file in enumerate(pdf_files, 1)\<close> loop, \<open>i\<close> being the next number.\<close>

fun print_entries :: "env \<Rightarrow> nat \<Rightarrow> path list \<Rightarrow> world \<Rightarrow> world" where
  "print_entries e i [] w = w"
| "print_entries e i (pdf_file # rest) w = print_entries e (Suc i) rest (print (entry_line e i pdf_file) w)"

definition select_prompt :: "nat \<Rightarrow> string" where
  "select_prompt n = newline # ''Select a file (1-'' @ str_nat n @ '') or 'q' to quit: ''"

definition msg_range :: "nat \<Rightarrow> string" where
  "msg_range n = ''Please enter a number between 1 and '' @ str_nat n"

definition msg_invalid :: string where
  "msg_invalid = ''Please enter a valid number or 'q' to quit''"

definition msg_truncated :: string where
  "msg_truncated = ''    ... (showing first 20 results)''"

text \<open>
  The \<^verbatim>\<open>while True\<close> loop of \<^verbatim>\<open>select_from_list\<close>. \<^verbatim>\<open>except ValueError\<close> catches what
  \<^verbatim>\<open>int\<close> raises; the \<^verbatim>\<open>EOFError\<close> of \<^verbatim>\<open>input\<close> is not caught and leaves the function.
\<close>

function select_loop :: "path list \<Rightarrow> world \<Rightarrow> (error + path option) \<times> world" where
  "select_loop pdf_files w =
     (case py_input (select_prompt (length pdf_files)) w of
        (Inl ex, w1) \<Rightarrow> (Inl ex, w1)
      | (Inr line, w1) \<Rightarrow>
          (let choice = strip line in
           if lower choice = ''q'' then (Inr None, w1)
           else
             (case py_int choice of
                Inl ex \<Rightarrow>
                  (if ex = ValueError then select_loop pdf_files (print msg_invalid w1)
                   else (Inl ex, w1))
              | Inr v \<Rightarrow>
                  (let index = v - 1 in
                   if 0 \<le> index \<and> index < int (length pdf_files)
                   then (Inr (Some (pdf_files ! nat index)), w1)
                   else select_loop pdf_files (print (msg_range (length pdf_files)) w1)))))"
  by pat_completeness auto
termination
  by (relation "measure (\<lambda>(fs, w). length (stdin w))")
     (auto simp: py_input_def print_def split: list.splits)

declare select_loop.simps [simp del]

definition select_from_list :: "env \<Rightarrow> path list \<Rightarrow> world \<Rightarrow> (error + path option) \<times> world" where
  "select_from_list e pdf_files w =
     (if pdf_files = [] then (Inr None, w)
      else
        let w1 = print (newline # ''Found PDF files:'') w;
            w2 = print_entries e 1 pdf_files w1;
            w3 = (if length pdf_files \<ge> 20 then print msg_truncated w2 else w2)
        in select_loop pdf_files w3)"

subsection \<open>Manual entry\<close>

text \<open>
  The two places that take quotes off (manual entry and the search directory) are the
  same code: \<^verbatim>\<open>if s.startswith('"') and s.endswith('"'): s = s[1:-1]\<close>, and likewise with
  the single quote in the \<^verbatim>\<open>elif\<close>.
\<close>

definition strip_quotes :: "string \<Rightarrow> string" where
  "strip_quotes s =
     (if startswith s [dquote] \<and> endswith s [dquote] then slice_1_m1 s
      else if startswith s [squote] \<and> endswith s [squote] then slice_1_m1 s
      else s)"

text \<open>\<^verbatim>\<open>if pdf_path.startswith('file://'): pdf_path = pdf_path[7:]\<close>\<close>

definition strip_file_url :: "string \<Rightarrow> string" where
  "strip_file_url s = (if startswith s ''file://'' then slice_from 7 s else s)"

text \<open>
  The string that one round of \<^verbatim>\<open>get_manual_path\<close> makes of the line it reads (from
  \<^verbatim>\<open>input(...).strip()\<close> to \<^verbatim>\<open>os.path.expanduser\<close>).
\<close>

definition entered_path :: "env \<Rightarrow> string \<Rightarrow> string" where
  "entered_path e line = expanduser e (strip_file_url (strip_quotes (strip line)))"

definition tip :: string where
  "tip = newline # ''Tip: You can drag and drop a file here, or copy/paste the full path''"

definition path_prompt :: string where
  "path_prompt = ''Enter the path to your PDF file: ''"

definition retry_prompt :: string where
  "retry_prompt = ''Try again? (y/n): ''"

definition msg_looked_for :: "env \<Rightarrow> path \<Rightarrow> string" where
  "msg_looked_for e pdf_file = ''Looked for: '' @ py_str (absolute e pdf_file)"

definition msg_not_pdf :: "string \<Rightarrow> string" where
  "msg_not_pdf pdf_path =
     ''Error: '' @ [squote] @ pdf_path @ [squote] @ '' is not a PDF file. Please provide a PDF file.''"

function get_manual_path :: "env \<Rightarrow> world \<Rightarrow> (error + path option) \<times> world" where
  "get_manual_path e w =
     (case py_input path_prompt (print tip w) of
        (Inl ex, w1) \<Rightarrow> (Inl ex, w1)
      | (Inr line, w1) \<Rightarrow>
          (let pdf_path = entered_path e line;
               pdf_file = Path pdf_path
           in if \<not> fs_exists e pdf_file then
                (case py_input retry_prompt
                        (print (msg_looked_for e pdf_file)
                           (print ''Error: File does not exist.'' w1)) of
                   (Inl ex, w2) \<Rightarrow> (Inl ex, w2)
                 | (Inr retry, w2) \<Rightarrow>
                     if lower (strip retry) \<noteq> ''y'' then (Inr None, w2)
                     else get_manual_path e w2)
              else if lower (suffix pdf_file) \<noteq> ''.pdf'' then
                get_manual_path e (print (msg_not_pdf pdf_path) w1)
              else (Inr (Some pdf_file), w1)))"
  by pat_completeness auto
termination
  by (relation "measure (\<lambda>(e, w). length (stdin w))")
     (auto simp: py_input_def print_def split: list.splits)

declare get_manual_path.simps [simp del]

subsection \<open>The menu\<close>

definition menu_prompt :: string where
  "menu_prompt = newline # ''Select option (1-3): ''"

definition dir_prompt :: string where
  "dir_prompt = ''Enter directory to search in: ''"

definition msg_no_dir :: "string \<Rightarrow> string" where
  "msg_no_dir search_dir = ''Directory '' @ [squote] @ search_dir @ [squote] @ '' does not exist.''"

definition msg_none_in :: "string \<Rightarrow> string" where
  "msg_none_in search_dir = ''No PDF files found in '' @ [squote] @ search_dir @ [squote] @ ''.''"

text \<open>The \<^verbatim>\<open>while True\<close> loop of \<^verbatim>\<open>get_pdf_path\<close>.\<close>

function menu_loop :: "env \<Rightarrow> world \<Rightarrow> (error + path option) \<times> world" where
  "menu_loop e w =
     (case py_input menu_prompt w of
        (Inl ex, w1) \<Rightarrow> (Inl ex, w1)
      | (Inr line, w1) \<Rightarrow>
          (let choice = strip line in
           if choice = ''1'' then get_manual_path e w1
           else if choice = ''2'' then
             (case find_pdf_files e None of
                Inl ex \<Rightarrow> (Inl ex, w1)
              | Inr pdf_files \<Rightarrow>
                  if pdf_files = [] then menu_loop e (print ''No PDF files found in home directory.'' w1)
                  else select_from_list e pdf_files w1)
           else if choice = ''3'' then
             (case py_input dir_prompt w1 of
                (Inl ex, w2) \<Rightarrow> (Inl ex, w2)
              | (Inr line2, w2) \<Rightarrow>
                  (let search_dir = strip_quotes (strip line2) in
                   if \<not> fs_exists e (Path search_dir) then menu_loop e (print (msg_no_dir search_dir) w2)
                   else
                     (case find_pdf_files e (Some search_dir) of
                        Inl ex \<Rightarrow> (Inl ex, w2)
                      | Inr pdf_files \<Rightarrow>
                          if pdf_files = [] then menu_loop e (print (msg_none_in search_dir) w2)
                          else select_from_list e pdf_files w2)))
           else menu_loop e (print ''Please enter 1, 2, or 3'' w1)))"
  by pat_completeness auto
termination
  by (relation "measure (\<lambda>(e, w). length (stdin w))")
     (auto simp: py_input_def print_def split: list.splits)

declare menu_loop.simps [simp del]

definition get_pdf_path :: "env \<Rightarrow> world \<Rightarrow> (error + path option) \<times> world" where
  "get_pdf_path e w =
     menu_loop e
       (print ''3. Search for PDF files from a specific directory''
         (print ''2. Search for PDF files from home directory''
           (print ''1. Enter file path manually''
             (print (newline # ''Choose how to select your PDF file:'') w))))"

subsection \<open>Extraction and output\<close>

text \<open>\<^verbatim>\<open>extract_pdf_to_markdown\<close>: \<open>None\<close> when the library raised.\<close>

definition msg_extracting :: "path \<Rightarrow> string" where
  "msg_extracting pdf_path = ''Extracting text from: '' @ py_str pdf_path"

definition msg_extract_error :: "string \<Rightarrow> string" where
  "msg_extract_error msg = ''Error extracting PDF: '' @ msg"

definition extract_pdf_to_markdown :: "env \<Rightarrow> path \<Rightarrow> world \<Rightarrow> string option \<times> world" where
  "extract_pdf_to_markdown e pdf_path w =
     (let w1 = print (msg_extracting pdf_path) w
      in case to_markdown e (py_str pdf_path) of
           Inr md_text \<Rightarrow> (Some md_text, w1)
         | Inl msg \<Rightarrow> (None, print (msg_extract_error msg) w1))"

text \<open>
  \<^verbatim>\<open>save_markdown\<close>: \<^verbatim>\<open>with_suffix\<close> stands before the \<^verbatim>\<open>try\<close>, so its \<^verbatim>\<open>ValueError\<close>
  leaves the function; a failure to open or write is caught and gives \<open>None\<close>.
\<close>

definition msg_saved :: "path \<Rightarrow> string" where
  "msg_saved output_path = ''Markdown saved to: '' @ py_str output_path"

definition msg_save_error :: "string \<Rightarrow> string" where
  "msg_save_error msg = ''Error saving markdown file: '' @ msg"

definition save_markdown :: "env \<Rightarrow> string \<Rightarrow> path \<Rightarrow> world \<Rightarrow> (error + path option) \<times> world" where
  "save_markdown e md_text pdf_path w =
     (case with_suffix pdf_path ''.md'' of
        Inl ex \<Rightarrow> (Inl ex, w)
      | Inr output_path \<Rightarrow>
          (case fs_open_w e (py_str output_path) of
             None \<Rightarrow>
               (Inr (Some output_path),
                print (msg_saved output_path)
                  (w\<lparr>written := written w @ [(py_str output_path, md_text)]\<rparr>))
           | Some msg \<Rightarrow> (Inr None, print (msg_save_error msg) w)))"

subsection \<open>The main function\<close>

text \<open>
  How a run ends: \<^verbatim>\<open>main\<close> returns, \<^verbatim>\<open>sys.exit(n)\<close> is called, or an exception nobody
  catches ends the interpreter (which then reports status 1).
\<close>

datatype outcome = Finished | Exit nat | Uncaught error

fun exit_status :: "outcome \<Rightarrow> nat" where
  "exit_status Finished = 0"
| "exit_status (Exit n) = n"
| "exit_status (Uncaught ex) = 1"

definition msg_missing :: "string \<Rightarrow> string" where
  "msg_missing arg = ''Error: File '' @ [squote] @ arg @ [squote] @ '' does not exist.''"

definition msg_arg_not_pdf :: "string \<Rightarrow> string" where
  "msg_arg_not_pdf arg = ''Error: '' @ [squote] @ arg @ [squote] @ '' is not a PDF file.''"

text \<open>
  The \<^verbatim>\<open>else\<close> branch of \<^verbatim>\<open>if args.pdf_file:\<close> in \<^verbatim>\<open>main\<close>: interactive selection; no
  selection ends the run with \<^verbatim>\<open>sys.exit(0)\<close>, and an exception that left
  \<^verbatim>\<open>get_pdf_path\<close> is caught by nobody.
\<close>

definition interactive :: "env \<Rightarrow> world \<Rightarrow> (outcome + path) \<times> world" where
  "interactive e w =
     (case get_pdf_path e w of
        (Inl ex, w1) \<Rightarrow> (Inl (Uncaught ex), w1)
      | (Inr None, w1) \<Rightarrow> (Inl (Exit 0), print ''No file selected. Exiting.'' w1)
      | (Inr (Some pdf_path), w1) \<Rightarrow> (Inr pdf_path, w1))"

text \<open>
  The first half of \<^verbatim>\<open>main\<close> after the banner (\<^verbatim>\<open>if args.pdf_file: ... else: ...\<close>): the
  path to work on, or the way the run ends there. \<open>pdf_file\<close> is the optional positional
  argument as \<^verbatim>\<open>argparse\<close> delivers it (\<open>None\<close> when absent); the \<^verbatim>\<open>if\<close> tests its truth
  value, so the empty string goes the way of \<open>None\<close>.
\<close>

definition resolve :: "env \<Rightarrow> string option \<Rightarrow> world \<Rightarrow> (outcome + path) \<times> world" where
  "resolve e pdf_file w =
     (case pdf_file of
        None \<Rightarrow> interactive e w
      | Some arg \<Rightarrow>
          if arg = [] then interactive e w
          else
            (let pdf_path = Path arg in
             if \<not> fs_exists e pdf_path then (Inl (Exit 1), print (msg_missing arg) w)
             else if lower (suffix pdf_path) \<noteq> ''.pdf'' then
               (Inl (Exit 1), print (msg_arg_not_pdf arg) w)
             else (Inr pdf_path, w)))"

text \<open>The second half of \<^verbatim>\<open>main\<close>: extraction, then saving.\<close>

definition process :: "env \<Rightarrow> path \<Rightarrow> world \<Rightarrow> outcome \<times> world" where
  "process e pdf_path w =
     (case extract_pdf_to_markdown e pdf_path w of
        (None, w1) \<Rightarrow> (Exit 1, w1)
      | (Some md_text, w1) \<Rightarrow>
          (case save_markdown e md_text pdf_path w1 of
             (Inl ex, w2) \<Rightarrow> (Uncaught ex, w2)
           | (Inr None, w2) \<Rightarrow> (Exit 1, w2)
           | (Inr (Some output_path), w2) \<Rightarrow>
               (Finished,
                print (''Output Markdown: '' @ py_str output_path)
                  (print (''Input PDF: '' @ py_str pdf_path)
                    (print (newline # ''Extraction completed successfully!'') w2)))))"

definition banner :: "world \<Rightarrow> world" where
  "banner w = print (replicate 30 CHR ''-'') (print ''PDF to Markdown Extractor'' w)"

definition main :: "env \<Rightarrow> string option \<Rightarrow> world \<Rightarrow> outcome \<times> world" where
  "main e pdf_file w =
     (case resolve e pdf_file (banner w) of
        (Inl out, w1) \<Rightarrow> (out, w1)
      | (Inr pdf_path, w1) \<Rightarrow> process e pdf_path w1)"

section \<open>The sanitising steps in the specification's words\<close>

text \<open>
  The steps of manual entry as the specification names them, written independently of the
  program text, to be compared with it.

  A string has matching surrounding quotes of kind \<open>q\<close> when its leading character and its
  trailing character are both \<open>q\<close>; taking one layer off removes that leading and that
  trailing character.
\<close>

definition quoted_by :: "char \<Rightarrow> string \<Rightarrow> bool" where
  "quoted_by q s = (s \<noteq> [] \<and> hd s = q \<and> last s = q)"

definition spec_unquote :: "string \<Rightarrow> string" where
  "spec_unquote s = (if quoted_by dquote s \<or> quoted_by squote s then butlast (tl s) else s)"

text \<open>Removing a leading \<^verbatim>\<open>file://\<close>.\<close>

fun spec_unscheme :: "string \<Rightarrow> string" where
  "spec_unscheme (c1 # c2 # c3 # c4 # c5 # c6 # c7 # r) =
     (if [c1, c2, c3, c4, c5, c6, c7] = ''file://'' then r
      else c1 # c2 # c3 # c4 # c5 # c6 # c7 # r)"
| "spec_unscheme s = s"

text \<open>
  Expanding a leading \<^verbatim>\<open>~\<close>: the characters between the tilde and the first slash name
  the user (nobody named: the current user); that part is replaced by the user's home
  directory, written without trailing slashes. A user that is not known leaves the string
  as it is.
\<close>

definition spec_tilde :: "env \<Rightarrow> string \<Rightarrow> string" where
  "spec_tilde e s =
     (case s of
        [] \<Rightarrow> []
      | c # r \<Rightarrow>
          if c \<noteq> CHR ''~'' then s
          else
            let user = takeWhile (\<lambda>x. x \<noteq> CHR ''/'') r;
                rest = dropWhile (\<lambda>x. x \<noteq> CHR ''/'') r
            in case (if user = [] then Some (home_dir e) else pw_dir e user) of
                 None \<Rightarrow> s
               | Some h \<Rightarrow> (if rstrip_slash h @ rest = [] then ''/'' else rstrip_slash h @ rest))"

definition spec_sanitize :: "env \<Rightarrow> string \<Rightarrow> string" where
  "spec_sanitize e s = spec_tilde e (spec_unscheme (spec_unquote s))"


text \<open>
  An element of the traversal sequence at which a \<^verbatim>\<open>PermissionError\<close> reaches the search
  loop: raised by the traversal itself, or by \<^verbatim>\<open>is_file\<close> on the entry.
\<close>

definition raises_permission_error :: "env \<Rightarrow> error + path \<Rightarrow> bool" where
  "raises_permission_error e x =
     (case x of Inl ex \<Rightarrow> ex = PermissionError | Inr p \<Rightarrow> fs_is_file e p = Inl PermissionError)"

text \<open>The regular files among a list of entries.\<close>

definition regular_files :: "env \<Rightarrow> path list \<Rightarrow> path list" where
  "regular_files e ps = filter (\<lambda>p. fs_is_file e p = Inr True) ps"

section \<open>Example environments\<close>

text \<open>Concrete surroundings on which the theorems below are instantiated.\<close>

definition w_in :: "string list \<Rightarrow> world" where
  "w_in ls = \<lparr>stdin = ls, stdout = [], written = []\<rparr>"

definition pdf_n :: "nat \<Rightarrow> path" where
  "pdf_n n = \<lparr>root = ''/'', parts = [''docs'', replicate n CHR ''x'' @ ''.pdf'']\<rparr>"

text \<open>A directory tree with 25 PDF files, all readable.\<close>

definition big_env :: env where
  "big_env =
     \<lparr>home_dir = ''/home/u'', pw_dir = (\<lambda>n. None), cwd = ''/work'',
      fs_exists = (\<lambda>p. True),
      fs_is_file = (\<lambda>p. Inr True),
      fs_walk = (\<lambda>d. map (\<lambda>n. Inr (pdf_n n)) [1..<26]),
      fs_open_w = (\<lambda>s. None),
      to_markdown = (\<lambda>s. Inr ''# text'')\<rparr>"

text \<open>
  A small tree below the home directory. \<^verbatim>\<open>d.pdf\<close> is a directory; \<^verbatim>\<open>b.pdf\<close> lies in a
  directory that may be listed but not searched, so that examining it is refused.
\<close>

definition demo_walk :: "(error + path) list" where
  "demo_walk =
     [Inr (Path ''/home/u/a.pdf''), Inr (Path ''/home/u/notes.txt''),
      Inr (Path ''/home/u/d.pdf''), Inr (Path ''/home/u/B.PDF''),
      Inr (Path ''/srv/c.pdf''), Inr (Path ''/home/u/locked/b.pdf''),
      Inr (Path ''/home/u/z.pdf'')]"

definition demo_env :: env where
  "demo_env =
     \<lparr>home_dir = ''/home/u'',
      pw_dir = (\<lambda>n. if n = ''bob'' then Some ''/home/bob/'' else None),
      cwd = ''/work'',
      fs_exists = (\<lambda>p. p \<in> set [Path ''report.PDF'', Path ''/home/u/a.pdf'', Path ''notes.txt'',
                                  Path ''bad.pdf'', Path ''/srv/c.pdf'', Path ''.'']),
      fs_is_file = (\<lambda>p. if p = Path ''/home/u/locked/b.pdf'' then Inl PermissionError
                         else Inr (p \<noteq> Path ''/home/u/d.pdf'')),
      fs_walk = (\<lambda>d. demo_walk),
      fs_open_w = (\<lambda>s. None),
      to_markdown = (\<lambda>s. if s = ''bad.pdf'' then Inl ''cannot open broken document''
                          else Inr ''# Report'')\<rparr>"

definition demo_files :: "path list" where
  "demo_files = [Path ''/home/u/a.pdf'', Path ''/srv/c.pdf'', Path ''/tmp/e.pdf'']"

section \<open>Basic facts about the state\<close>

lemma stdin_print [simp]: "stdin (print s w) = stdin w"
  by (simp add: print_def)

lemma written_print [simp]: "written (print s w) = written w"
  by (simp add: print_def)

lemma stdout_print [simp]: "stdout (print s w) = stdout w @ [Print s]"
  by (simp add: print_def)

lemma py_input_stdout:
  "py_input p w = (r, w1) \<Longrightarrow> stdout w1 = stdout w @ [Prompt p]"
  by (auto simp: py_input_def split: list.splits)

lemma py_input_written:
  "py_input p w = (r, w1) \<Longrightarrow> written w1 = written w"
  by (auto simp: py_input_def split: list.splits)

section \<open>The cap of the directory search\<close>

lemma find_loop_length:
  "length acc < 20 \<Longrightarrow> length (snd (find_loop e xs acc)) \<le> 20"
proof (induction xs arbitrary: acc)
  case Nil
  then show ?case by simp
next
  case (Cons x xs)
  show ?case
  proof (cases x)
    case (Inl ex)
    with Cons.prems show ?thesis by simp
  next
    case (Inr p)
    show ?thesis
    proof (cases "fs_is_file e p")
      case (Inl ex)
      with Inr Cons.prems show ?thesis by simp
    next
      case isf: (Inr b)
      show ?thesis
      proof (cases b)
        case False
        with Inr isf Cons show ?thesis by simp
      next
        case True
        show ?thesis
        proof (cases "20 \<le> Suc (length acc)")
          case full: True
          with Inr isf True Cons.prems show ?thesis by simp
        next
          case notfull: False
          then have "length (acc @ [p]) < 20" by simp
          from Cons.IH [OF this] Inr isf True notfull show ?thesis by simp
        qed
      qed
    qed
  qed
qed

lemma find_pdf_files_length:
  assumes "find_pdf_files e d = Inr fs"
  shows "length fs \<le> 20"
proof -
  let ?seq = "rglob e (search_root e d) ''*.pdf''"
  obtain x l where fl: "find_loop e ?seq [] = (x, l)"
    by (cases "find_loop e ?seq []")
  have "length (snd (find_loop e ?seq [])) \<le> 20"
    by (rule find_loop_length) simp
  with fl have "length l \<le> 20" by simp
  moreover from assms fl have "fs = l"
    by (auto simp: find_pdf_files_def Let_def split: option.splits if_splits)
  ultimately show ?thesis by simp
qed

text \<open>Whatever the picklist loop does, it never takes back what has been shown.\<close>

lemma select_loop_keeps_stdout:
  "set (stdout w) \<subseteq> set (stdout (snd (select_loop fs w)))"
proof (induction fs w rule: select_loop.induct)
  case (1 pdf_files w)
  obtain r w1 where inp: "py_input (select_prompt (length pdf_files)) w = (r, w1)"
    by (cases "py_input (select_prompt (length pdf_files)) w")
  then have out1: "stdout w1 = stdout w @ [Prompt (select_prompt (length pdf_files))]"
    by (rule py_input_stdout)
  show ?case
  proof (cases r)
    case (Inl ex)
    with inp out1 show ?thesis by (auto simp: select_loop.simps [of pdf_files w])
  next
    case (Inr line)
    show ?thesis
    proof (cases "lower (strip line) = ''q''")
      case True
      with inp Inr out1 show ?thesis by (auto simp: select_loop.simps [of pdf_files w])
    next
      case notq: False
      show ?thesis
      proof (cases "py_int (strip line)")
        case bad: (Inl ex)
        show ?thesis
        proof (cases "ex = ValueError")
          case True
          from "1.IH"(1) [OF inp [symmetric] Inr refl notq bad True]
          have "set (stdout (print msg_invalid w1))
                  \<subseteq> set (stdout (snd (select_loop pdf_files (print msg_invalid w1))))" .
          with inp Inr notq bad True out1 show ?thesis
            by (auto simp: select_loop.simps [of pdf_files w])
        next
          case False
          with inp Inr notq bad out1 show ?thesis
            by (auto simp: select_loop.simps [of pdf_files w])
        qed
      next
        case good: (Inr v)
        show ?thesis
        proof (cases "0 \<le> v - 1 \<and> v - 1 < int (length pdf_files)")
          case True
          with inp Inr notq good out1 show ?thesis
            by (auto simp: select_loop.simps [of pdf_files w])
        next
          case False
          from "1.IH"(2) [OF inp [symmetric] Inr refl notq good refl False]
          have "set (stdout (print (msg_range (length pdf_files)) w1))
                  \<subseteq> set (stdout (snd (select_loop pdf_files (print (msg_range (length pdf_files)) w1))))" .
          with inp Inr notq good False out1 show ?thesis
            by (auto simp: select_loop.simps [of pdf_files w])
        qed
      qed
    qed
  qed
qed

text \<open>
  C1. Whatever the search root, a list returned by \<open>find_pdf_files\<close> has at most 20
  entries; and when it has 20 (the cap was hit, whether or not more files exist), the
  picklist shown for it by \<open>select_from_list\<close> contains the line
  \<^verbatim>\<open>... (showing first 20 results)\<close>, whatever the user then types.
\<close>

theorem search_cap_and_notice:
  "find_pdf_files e d = Inr fs \<Longrightarrow>
     length fs \<le> 20 \<and>
     (length fs = 20 \<longrightarrow>
        Print msg_truncated \<in> set (stdout (snd (select_from_list e fs w))))"
proof
  assume a: "find_pdf_files e d = Inr fs"
  then show "length fs \<le> 20" by (rule find_pdf_files_length)
  show "length fs = 20 \<longrightarrow> Print msg_truncated \<in> set (stdout (snd (select_from_list e fs w)))"
  proof
    assume l: "length fs = 20"
    then have ne: "fs \<noteq> []" by auto
    let ?w3 = "print msg_truncated (print_entries e 1 fs (print (newline # ''Found PDF files:'') w))"
    have "Print msg_truncated \<in> set (stdout ?w3)" by simp
    moreover have "set (stdout ?w3) \<subseteq> set (stdout (snd (select_loop fs ?w3)))"
      by (rule select_loop_keeps_stdout)
    moreover have "select_from_list e fs w = select_loop fs ?w3"
      using l ne by (simp add: select_from_list_def Let_def)
    ultimately show "Print msg_truncated \<in> set (stdout (snd (select_from_list e fs w)))"
      by auto
  qed
qed

theorem search_cap_and_notice_witness:
  "find_pdf_files big_env None = Inr (map pdf_n [1..<21]) \<and>
   length (map pdf_n [1..<21]) = 20 \<and>
   Print msg_truncated
     \<in> set (stdout (snd (select_from_list big_env (map pdf_n [1..<21]) (w_in [''5'']))))"
proof -
  have h: "find_pdf_files big_env None = Inr (map pdf_n [1..<21])"
    by code_simp
  have l: "length (map pdf_n [1..<21]) = 20"
    by simp
  from search_cap_and_notice [OF h, of "w_in [''5'']"] h l show ?thesis
    by blast
qed



section \<open>The picklist\<close>

lemma lower_char_q: "lower_char c = CHR ''q'' \<Longrightarrow> c = CHR ''q'' \<or> c = CHR ''Q''"
proof -
  assume a: "lower_char c = CHR ''q''"
  show ?thesis
  proof (cases "65 \<le> ord c \<and> ord c \<le> 90")
    case True
    with a have "chr (ord c + 32) = CHR ''q''" by (simp add: lower_char_def)
    then have "of_char (chr (ord c + 32)) = (of_char (CHR ''q'') :: nat)" by simp
    with True have "ord c + 32 = 113" by (simp add: chr_def ord_def)
    then have "ord c = of_char (CHR ''Q'')" by simp
    then have "c = CHR ''Q''" unfolding ord_def by (metis char_of_char)
    then show ?thesis by simp
  next
    case False
    with a show ?thesis by (simp add: lower_char_def)
  qed
qed

lemma lower_q: "lower s = ''q'' \<Longrightarrow> s = ''q'' \<or> s = ''Q''"
  by (cases s) (auto simp: lower_def dest: lower_char_q)

lemma py_int_q: "lower s = ''q'' \<Longrightarrow> py_int s = Inl ValueError"
proof -
  assume "lower s = ''q''"
  then have "s = ''q'' \<or> s = ''Q''" by (rule lower_q)
  then show ?thesis by (auto simp: py_int_def strip_def is_space_def int_body_def is_digit_def ord_def)
qed

lemma py_int_error: "py_int s = Inl ex \<Longrightarrow> ex = ValueError"
  by (auto simp: py_int_def split: list.splits if_splits option.splits)



lemma print_entries_stdin [simp]: "stdin (print_entries e k fs w) = stdin w"
  by (induction fs arbitrary: k w) auto

lemma print_entries_written [simp]: "written (print_entries e k fs w) = written w"
  by (induction fs arbitrary: k w) auto

lemma print_entries_stdout:
  "stdout (print_entries e k fs w) =
     stdout w @ map (\<lambda>i. Print (entry_line e (k + i) (fs ! i))) [0..<length fs]"
proof (induction fs arbitrary: k w)
  case Nil
  then show ?case by simp
next
  case (Cons p ps)
  have "map (\<lambda>i. Print (entry_line e (k + i) ((p # ps) ! i))) [0..<length (p # ps)] =
        Print (entry_line e k p) # map (\<lambda>i. Print (entry_line e (Suc k + i) (ps ! i))) [0..<length ps]"
    by (simp add: upt_conv_Cons map_Suc_upt [symmetric] del: upt_Suc)
  with Cons.IH [of "Suc k" "print (entry_line e k p) w"] show ?case
    by simp
qed

text \<open>
  C9. At the picklist over the candidates \<open>fs\<close>, when the prompt reads the line \<open>l\<close>:
  \<^item> \<^verbatim>\<open>q\<close> (in either case, blanks around it ignored) returns no selection;
  \<^item> a number \<open>k\<close> with \<open>1 \<le> k \<le> length fs\<close> returns the \<open>k\<close>-th candidate, counted from 1;
  \<^item> a number outside that range prints \<^verbatim>\<open>Please enter a number between 1 and n\<close> and
    the loop goes on with the next prompt;
  \<^item> a line that is no number (and not \<^verbatim>\<open>q\<close>) prints
    \<^verbatim>\<open>Please enter a valid number or 'q' to quit\<close> and the loop goes on likewise.
  Before the first prompt, a non-empty list is shown with its entries numbered from 1, in
  list order.
\<close>

theorem picklist_selection:
  assumes inp: "py_input (select_prompt (length fs)) w = (Inr l, w1)"
  shows
    "(lower (strip l) = ''q'' \<longrightarrow> select_loop fs w = (Inr None, w1)) \<and>
     (\<forall>k. py_int (strip l) = Inr k \<and> 1 \<le> k \<and> k \<le> int (length fs) \<longrightarrow>
          select_loop fs w = (Inr (Some (fs ! nat (k - 1))), w1)) \<and>
     (\<forall>k. py_int (strip l) = Inr k \<and> (k < 1 \<or> int (length fs) < k) \<longrightarrow>
          select_loop fs w = select_loop fs (print (msg_range (length fs)) w1)) \<and>
     (lower (strip l) \<noteq> ''q'' \<and> py_int (strip l) = Inl ValueError \<longrightarrow>
          select_loop fs w = select_loop fs (print msg_invalid w1)) \<and>
     (fs \<noteq> [] \<longrightarrow>
        (\<exists>w'. select_from_list e fs w0 = select_loop fs w' \<and> stdin w' = stdin w0 \<and>
              stdout w' =
                stdout w0 @ Print (newline # ''Found PDF files:'') #
                  map (\<lambda>i. Print (entry_line e (Suc i) (fs ! i))) [0..<length fs] @
                  (if 20 \<le> length fs then [Print msg_truncated] else [])))"
proof (intro conjI allI impI)
  assume "lower (strip l) = ''q''"
  with inp show "select_loop fs w = (Inr None, w1)"
    by (simp add: select_loop.simps [of fs w])
next
  fix k
  assume a: "py_int (strip l) = Inr k \<and> 1 \<le> k \<and> k \<le> int (length fs)"
  then have "lower (strip l) \<noteq> ''q''" using py_int_q [of "strip l"] by auto
  with inp a show "select_loop fs w = (Inr (Some (fs ! nat (k - 1))), w1)"
    by (auto simp: select_loop.simps [of fs w] Let_def)
next
  fix k
  assume a: "py_int (strip l) = Inr k \<and> (k < 1 \<or> int (length fs) < k)"
  then have "lower (strip l) \<noteq> ''q''" using py_int_q [of "strip l"] by auto
  moreover from a have "\<not> (0 \<le> k - 1 \<and> k - 1 < int (length fs))" by auto
  ultimately show "select_loop fs w = select_loop fs (print (msg_range (length fs)) w1)"
    using inp a by (auto simp: select_loop.simps [of fs w] Let_def)
next
  assume "lower (strip l) \<noteq> ''q'' \<and> py_int (strip l) = Inl ValueError"
  with inp show "select_loop fs w = select_loop fs (print msg_invalid w1)"
    by (simp add: select_loop.simps [of fs w])
next
  assume ne: "fs \<noteq> []"
  let ?w2 = "print_entries e 1 fs (print (newline # ''Found PDF files:'') w0)"
  let ?w3 = "if 20 \<le> length fs then print msg_truncated ?w2 else ?w2"
  have "select_from_list e fs w0 = select_loop fs ?w3"
    using ne by (simp add: select_from_list_def Let_def)
  moreover have "stdin ?w3 = stdin w0" by simp
  moreover have "stdout ?w3 =
      stdout w0 @ Print (newline # ''Found PDF files:'') #
        map (\<lambda>i. Print (entry_line e (Suc i) (fs ! i))) [0..<length fs] @
        (if 20 \<le> length fs then [Print msg_truncated] else [])"
    by (simp add: print_entries_stdout)
  ultimately show "\<exists>w'. select_from_list e fs w0 = select_loop fs w' \<and> stdin w' = stdin w0 \<and>
              stdout w' =
                stdout w0 @ Print (newline # ''Found PDF files:'') #
                  map (\<lambda>i. Print (entry_line e (Suc i) (fs ! i))) [0..<length fs] @
                  (if 20 \<le> length fs then [Print msg_truncated] else [])"
    by blast
qed


theorem picklist_selection_witness:
  "select_loop demo_files (w_in [''Q'']) =
     (Inr None, snd (py_input (select_prompt (length demo_files)) (w_in [''Q'']))) \<and>
   select_loop demo_files (w_in ['' 2 '']) =
     (Inr (Some (Path ''/srv/c.pdf'')), snd (py_input (select_prompt (length demo_files)) (w_in ['' 2 '']))) \<and>
   select_loop demo_files (w_in [''7'', ''q'']) =
     select_loop demo_files
       (print (msg_range (length demo_files))
          (snd (py_input (select_prompt (length demo_files)) (w_in [''7'', ''q''])))) \<and>
   select_loop demo_files (w_in [''two'', ''1'']) =
     select_loop demo_files
       (print msg_invalid (snd (py_input (select_prompt (length demo_files)) (w_in [''two'', ''1''])))) \<and>
   (\<exists>w'. select_from_list demo_env demo_files (w_in []) = select_loop demo_files w' \<and>
         stdout w' =
           [Print (newline # ''Found PDF files:''), Print '' 1. ~/a.pdf'',
            Print '' 2. /srv/c.pdf'', Print '' 3. /tmp/e.pdf''])"
proof -
  let ?p = "select_prompt (length demo_files)"
  have a: "py_input ?p (w_in [''Q'']) = (Inr ''Q'', snd (py_input ?p (w_in [''Q''])))"
    by (simp add: py_input_def w_in_def)
  have a': "lower (strip ''Q'') = ''q''"
    by code_simp
  have b: "py_input ?p (w_in ['' 2 '']) = (Inr '' 2 '', snd (py_input ?p (w_in ['' 2 ''])))"
    by (simp add: py_input_def w_in_def)
  have b': "py_int (strip '' 2 '') = Inr 2 \<and> (1::int) \<le> 2 \<and> 2 \<le> int (length demo_files)"
    by code_simp
  have b'': "demo_files ! nat (2 - 1) = Path ''/srv/c.pdf''"
    by code_simp
  have c: "py_input ?p (w_in [''7'', ''q'']) = (Inr ''7'', snd (py_input ?p (w_in [''7'', ''q''])))"
    by (simp add: py_input_def w_in_def)
  have c': "py_int (strip ''7'') = Inr 7 \<and> ((7::int) < 1 \<or> int (length demo_files) < 7)"
    by code_simp
  have d: "py_input ?p (w_in [''two'', ''1'']) = (Inr ''two'', snd (py_input ?p (w_in [''two'', ''1''])))"
    by (simp add: py_input_def w_in_def)
  have d': "lower (strip ''two'') \<noteq> ''q'' \<and> py_int (strip ''two'') = Inl ValueError"
    by code_simp
  from picklist_selection [OF a, of demo_env "w_in []"] a'
  have 1: "select_loop demo_files (w_in [''Q'']) = (Inr None, snd (py_input ?p (w_in [''Q''])))"
    by blast
  from picklist_selection [OF b, of demo_env "w_in []"] b'
  have "select_loop demo_files (w_in ['' 2 '']) =
          (Inr (Some (demo_files ! nat (2 - 1))), snd (py_input ?p (w_in ['' 2 ''])))"
    by blast
  with b'' have 2: "select_loop demo_files (w_in ['' 2 '']) =
          (Inr (Some (Path ''/srv/c.pdf'')), snd (py_input ?p (w_in ['' 2 ''])))"
    by simp
  from picklist_selection [OF c, of demo_env "w_in []"] c'
  have 3: "select_loop demo_files (w_in [''7'', ''q'']) =
     select_loop demo_files (print (msg_range (length demo_files)) (snd (py_input ?p (w_in [''7'', ''q'']))))"
    by blast
  from picklist_selection [OF d, of demo_env "w_in []"] d'
  have 4: "select_loop demo_files (w_in [''two'', ''1'']) =
     select_loop demo_files (print msg_invalid (snd (py_input ?p (w_in [''two'', ''1'']))))"
    by blast
  have e': "demo_files \<noteq> []"
    by code_simp
  have e'': "stdout (w_in []) @ Print (newline # ''Found PDF files:'') #
               map (\<lambda>i. Print (entry_line demo_env (Suc i) (demo_files ! i))) [0..<length demo_files] @
               (if 20 \<le> length demo_files then [Print msg_truncated] else []) =
             [Print (newline # ''Found PDF files:''), Print '' 1. ~/a.pdf'',
              Print '' 2. /srv/c.pdf'', Print '' 3. /tmp/e.pdf'']"
    by code_simp
  from picklist_selection [OF a, of demo_env "w_in []"] e'
  have "\<exists>w'. select_from_list demo_env demo_files (w_in []) = select_loop demo_files w' \<and>
         stdin w' = stdin (w_in []) \<and>
         stdout w' =
           stdout (w_in []) @ Print (newline # ''Found PDF files:'') #
             map (\<lambda>i. Print (entry_line demo_env (Suc i) (demo_files ! i))) [0..<length demo_files] @
             (if 20 \<le> length demo_files then [Print msg_truncated] else [])"
    by blast
  with e'' have 5: "\<exists>w'. select_from_list demo_env demo_files (w_in []) = select_loop demo_files w' \<and>
         stdout w' =
           [Print (newline # ''Found PDF files:''), Print '' 1. ~/a.pdf'',
            Print '' 2. /srv/c.pdf'', Print '' 3. /tmp/e.pdf'']"
    by auto
  from 1 2 3 4 5 show ?thesis by blast
qed



section \<open>What the interactive functions return and leave untouched\<close>

lemma select_loop_result:
  "select_loop fs w = (r, w') \<Longrightarrow>
     written w' = written w \<and> (\<forall>p. r = Inr (Some p) \<longrightarrow> p \<in> set fs)"
proof (induction fs w arbitrary: r w' rule: select_loop.induct)
  case (1 pdf_files w)
  obtain r1 w1 where inp: "py_input (select_prompt (length pdf_files)) w = (r1, w1)"
    by (cases "py_input (select_prompt (length pdf_files)) w")
  then have wr: "written w1 = written w"
    by (rule py_input_written)
  from "1.prems" inp wr "1.IH" [OF inp [symmetric]] show ?case
    by (subst (asm) select_loop.simps)
       (auto simp: Let_def split: sum.splits if_splits)
qed

lemma select_from_list_result:
  "select_from_list e fs w = (r, w') \<Longrightarrow>
     written w' = written w \<and> (\<forall>p. r = Inr (Some p) \<longrightarrow> p \<in> set fs)"
  by (auto simp: select_from_list_def Let_def split: if_splits dest: select_loop_result)

text \<open>One round of manual entry, by what the file system says about the entered path.\<close>

lemma manual_round_accept:
  assumes "py_input path_prompt (print tip w) = (Inr line, w1)"
    and "fs_exists e (Path (entered_path e line))"
    and "lower (suffix (Path (entered_path e line))) = ''.pdf''"
  shows "get_manual_path e w = (Inr (Some (Path (entered_path e line))), w1)"
  using assms by (subst get_manual_path.simps) (simp add: Let_def)

lemma manual_round_not_pdf:
  assumes "py_input path_prompt (print tip w) = (Inr line, w1)"
    and "fs_exists e (Path (entered_path e line))"
    and "lower (suffix (Path (entered_path e line))) \<noteq> ''.pdf''"
  shows "get_manual_path e w = get_manual_path e (print (msg_not_pdf (entered_path e line)) w1)"
  using assms by (subst get_manual_path.simps) (simp add: Let_def)

lemma manual_round_missing:
  assumes "py_input path_prompt (print tip w) = (Inr line, w1)"
    and "\<not> fs_exists e (Path (entered_path e line))"
    and "py_input retry_prompt
           (print (msg_looked_for e (Path (entered_path e line)))
              (print ''Error: File does not exist.'' w1)) = (Inr answer, w2)"
  shows "get_manual_path e w =
           (if lower (strip answer) \<noteq> ''y'' then (Inr None, w2) else get_manual_path e w2)"
  using assms by (subst get_manual_path.simps) (simp add: Let_def)

lemma get_manual_path_result:
  "get_manual_path e w = (r, w') \<Longrightarrow>
     written w' = written w \<and>
     (\<forall>p. r = Inr (Some p) \<longrightarrow> fs_exists e p \<and> lower (suffix p) = ''.pdf'')"
proof (induction e w arbitrary: r w' rule: get_manual_path.induct)
  case (1 e w)
  obtain r1 w1 where inp: "py_input path_prompt (print tip w) = (r1, w1)"
    by (cases "py_input path_prompt (print tip w)")
  then have wr: "written w1 = written w"
    by (auto dest: py_input_written)
  show ?case
  proof (cases r1)
    case (Inl ex)
    with "1.prems" inp wr show ?thesis
      by (subst (asm) get_manual_path.simps) auto
  next
    case (Inr line)
    let ?f = "Path (entered_path e line)"
    show ?thesis
    proof (cases "fs_exists e ?f")
      case False
      let ?w = "print (msg_looked_for e ?f) (print ''Error: File does not exist.'' w1)"
      obtain r2 w2 where inp2: "py_input retry_prompt ?w = (r2, w2)"
        by (cases "py_input retry_prompt ?w")
      then have wr2: "written w2 = written w"
        using wr by (auto dest: py_input_written)
      show ?thesis
      proof (cases r2)
        case (Inl ex)
        with "1.prems" inp Inr False inp2 wr2 show ?thesis
          by (subst (asm) get_manual_path.simps) (auto simp: Let_def)
      next
        case retry: (Inr answer)
        show ?thesis
        proof (cases "lower (strip answer) = ''y''")
          case no: False
          with "1.prems" inp Inr False inp2 retry wr2 show ?thesis
            by (subst (asm) get_manual_path.simps) (auto simp: Let_def)
        next
          case yes: True
          from "1.prems" inp Inr False inp2 retry yes
          have rec: "get_manual_path e w2 = (r, w')"
            by (subst (asm) get_manual_path.simps) (simp add: Let_def)
          have "\<not> lower (strip answer) \<noteq> ''y''" using yes by simp
          from "1.IH"(1) [OF inp [symmetric] Inr refl refl False inp2 [symmetric] retry this rec] wr2
          show ?thesis by simp
        qed
      qed
    next
      case True
      show ?thesis
      proof (cases "lower (suffix ?f) = ''.pdf''")
        case ok: True
        with "1.prems" inp Inr True wr show ?thesis
          by (subst (asm) get_manual_path.simps) (auto simp: Let_def)
      next
        case bad: False
        from "1.prems" inp Inr True bad
        have rec: "get_manual_path e (print (msg_not_pdf (entered_path e line)) w1) = (r, w')"
          by (subst (asm) get_manual_path.simps) (simp add: Let_def)
        have "\<not> \<not> fs_exists e ?f" using True by simp
        from "1.IH"(2) [OF inp [symmetric] Inr refl refl this bad rec] wr
        show ?thesis by simp
      qed
    qed
  qed
qed


section \<open>What the search finds\<close>

lemma glob_star:
  "glob_match (CHR ''*'' # ps) s = (\<exists>a b. s = a @ b \<and> glob_match ps b)"
proof (induction s)
  case Nil
  then show ?case by simp
next
  case (Cons c cs)
  have "(\<exists>a b. c # cs = a @ b \<and> glob_match ps b) =
        (glob_match ps (c # cs) \<or> (\<exists>a b. cs = a @ b \<and> glob_match ps b))"
    by (auto simp: Cons_eq_append_conv)
  with Cons show ?case by simp
qed

lemma glob_literal:
  "CHR ''*'' \<notin> set ps \<Longrightarrow> CHR ''?'' \<notin> set ps \<Longrightarrow> glob_match ps s = (s = ps)"
proof (induction ps arbitrary: s)
  case Nil
  then show ?case by auto
next
  case (Cons p ps)
  then show ?case by (cases s) auto
qed

lemma glob_pdf: "glob_match ''*.pdf'' n = (\<exists>a. n = a @ ''.pdf'')"
proof -
  have "glob_match ''.pdf'' b = (b = ''.pdf'')" for b
    by (rule glob_literal) simp_all
  then show ?thesis
    by (simp add: glob_star)
qed

lemma find_loop_members:
  "p \<in> set (snd (find_loop e xs acc)) \<Longrightarrow>
     p \<in> set acc \<or> (Inr p \<in> set xs \<and> fs_is_file e p = Inr True)"
proof (induction xs arbitrary: acc)
  case Nil
  then show ?case by simp
next
  case (Cons x xs)
  show ?case
  proof (cases x)
    case (Inl ex)
    with Cons.prems show ?thesis by simp
  next
    case (Inr q)
    show ?thesis
    proof (cases "fs_is_file e q")
      case (Inl ex)
      with Inr Cons.prems show ?thesis by simp
    next
      case isf: (Inr b)
      show ?thesis
      proof (cases b)
        case False
        with Inr isf Cons.prems have "p \<in> set (snd (find_loop e xs acc))" by simp
        from Cons.IH [OF this] show ?thesis by auto
      next
        case True
        show ?thesis
        proof (cases "20 \<le> Suc (length acc)")
          case full: True
          with Inr isf True Cons.prems show ?thesis by auto
        next
          case notfull: False
          with Inr isf True Cons.prems have "p \<in> set (snd (find_loop e xs (acc @ [q])))" by simp
          from Cons.IH [OF this] Inr isf True show ?thesis by auto
        qed
      qed
    qed
  qed
qed

lemma find_pdf_files_members:
  assumes "find_pdf_files e d = Inr fs" and "p \<in> set fs"
  shows "fs_is_file e p = Inr True \<and> glob_match ''*.pdf'' (name p)"
proof -
  let ?seq = "rglob e (search_root e d) ''*.pdf''"
  obtain x l where fl: "find_loop e ?seq [] = (x, l)"
    by (cases "find_loop e ?seq []")
  with assms(1) have "fs = l"
    by (auto simp: find_pdf_files_def split: option.splits if_splits)
  with assms(2) fl have "p \<in> set (snd (find_loop e ?seq []))" by simp
  then have "Inr p \<in> set ?seq \<and> fs_is_file e p = Inr True"
    using find_loop_members [of p e ?seq "[]"] by simp
  then show ?thesis
    by (auto simp: rglob_def)
qed


text \<open>What any path coming out of the menu is known to satisfy.\<close>

lemma menu_loop_result:
  "menu_loop e w = (r, w') \<Longrightarrow>
     written w' = written w \<and>
     (\<forall>p. r = Inr (Some p) \<longrightarrow>
        (fs_exists e p \<and> lower (suffix p) = ''.pdf'') \<or>
        (fs_is_file e p = Inr True \<and> glob_match ''*.pdf'' (name p)))"
proof (induction e w arbitrary: r w' rule: menu_loop.induct)
  case (1 e w)
  let ?good = "\<lambda>r. \<forall>p. r = Inr (Some p) \<longrightarrow>
        (fs_exists e p \<and> lower (suffix p) = ''.pdf'') \<or>
        (fs_is_file e p = Inr True \<and> glob_match ''*.pdf'' (name p))"
  obtain r1 w1 where inp: "py_input menu_prompt w = (r1, w1)"
    by (cases "py_input menu_prompt w")
  then have wr: "written w1 = written w"
    by (rule py_input_written)
  show ?case
  proof (cases r1)
    case (Inl ex)
    with "1.prems" inp wr show ?thesis
      by (subst (asm) menu_loop.simps) auto
  next
    case (Inr line)
    note unfold = "1.prems" [unfolded menu_loop.simps [of e w] inp Inr, simplified Let_def, simplified]
    consider (one) "strip line = ''1''" | (two) "strip line = ''2''" | (three) "strip line = ''3''"
      | (other) "strip line \<noteq> ''1''" "strip line \<noteq> ''2''" "strip line \<noteq> ''3''"
      by blast
    then show ?thesis
    proof cases
      case one
      with unfold have "get_manual_path e w1 = (r, w')" by simp
      from get_manual_path_result [OF this] wr show ?thesis by simp
    next
      case two
      then have n1: "strip line \<noteq> ''1''" by simp
      show ?thesis
      proof (cases "find_pdf_files e None")
        case (Inl ex)
        with unfold two wr show ?thesis by auto
      next
        case found: (Inr fs)
        show ?thesis
        proof (cases "fs = []")
          case True
          with unfold two found
          have rec: "menu_loop e (print ''No PDF files found in home directory.'' w1) = (r, w')"
            by simp
          from "1.IH"(1) [OF inp [symmetric] Inr refl n1 two found True rec] wr
          show ?thesis by simp
        next
          case False
          with unfold two found have "select_from_list e fs w1 = (r, w')" by simp
          from select_from_list_result [OF this] wr find_pdf_files_members [OF found]
          show ?thesis by auto
        qed
      qed
    next
      case three
      then have n1: "strip line \<noteq> ''1''" and n2: "strip line \<noteq> ''2''" by simp_all
      obtain r2 w2 where inp2: "py_input dir_prompt w1 = (r2, w2)"
        by (cases "py_input dir_prompt w1")
      then have wr2: "written w2 = written w"
        using wr by (auto dest: py_input_written)
      show ?thesis
      proof (cases r2)
        case (Inl ex)
        with unfold three inp2 wr2 show ?thesis by auto
      next
        case dir: (Inr line2)
        let ?d = "strip_quotes (strip line2)"
        show ?thesis
        proof (cases "fs_exists e (Path ?d)")
          case False
          with unfold three inp2 dir
          have rec: "menu_loop e (print (msg_no_dir ?d) w2) = (r, w')" by simp
          from "1.IH"(2) [OF inp [symmetric] Inr refl n1 n2 three inp2 [symmetric] dir refl False rec] wr2
          show ?thesis by simp
        next
          case True
          show ?thesis
          proof (cases "find_pdf_files e (Some ?d)")
            case (Inl ex)
            with unfold three inp2 dir True wr2 show ?thesis by auto
          next
            case found: (Inr fs)
            show ?thesis
            proof (cases "fs = []")
              case empty: True
              with unfold three inp2 dir True found
              have rec: "menu_loop e (print (msg_none_in ?d) w2) = (r, w')" by simp
              have "\<not> \<not> fs_exists e (Path ?d)" using True by simp
              from "1.IH"(3) [OF inp [symmetric] Inr refl n1 n2 three inp2 [symmetric] dir refl this found empty rec] wr2
              show ?thesis by simp
            next
              case False
              with unfold three inp2 dir True found have "select_from_list e fs w2 = (r, w')" by simp
              from select_from_list_result [OF this] wr2 find_pdf_files_members [OF found]
              show ?thesis by auto
            qed
          qed
        qed
      qed
    next
      case other
      with unfold have rec: "menu_loop e (print ''Please enter 1, 2, or 3'' w1) = (r, w')" by simp
      from "1.IH"(4) [OF inp [symmetric] Inr refl other rec] wr
      show ?thesis by simp
    qed
  qed
qed



section \<open>The main function\<close>

lemma get_pdf_path_result:
  "get_pdf_path e w = (r, w') \<Longrightarrow>
     written w' = written w \<and>
     (\<forall>p. r = Inr (Some p) \<longrightarrow>
        (fs_exists e p \<and> lower (suffix p) = ''.pdf'') \<or>
        (fs_is_file e p = Inr True \<and> glob_match ''*.pdf'' (name p)))"
  unfolding get_pdf_path_def by (drule menu_loop_result) simp

lemma suffix_name: "suffix p \<noteq> [] \<Longrightarrow> name p \<noteq> []"
  by (auto simp: suffix_def)

lemma lower_pdf_nonempty: "lower s = ''.pdf'' \<Longrightarrow> s \<noteq> []"
  by (auto simp: lower_def)

lemma resolve_result:
  assumes "resolve e a w = (r, w')"
  shows "written w' = written w \<and> (\<forall>p. r = Inr p \<longrightarrow> name p \<noteq> [])"
proof (cases "\<exists>s. a = Some s \<and> s \<noteq> []")
  case True
  then obtain s where s: "a = Some s" "s \<noteq> []" by blast
  have "name (Path s) \<noteq> []" if "lower (suffix (Path s)) = ''.pdf''"
    using that by (auto dest: lower_pdf_nonempty suffix_name)
  with assms s show ?thesis
    by (auto simp: resolve_def Let_def split: if_splits)
next
  case False
  then have i: "resolve e a w = interactive e w"
    by (cases a) (auto simp: resolve_def)
  obtain r1 w1 where g: "get_pdf_path e w = (r1, w1)"
    by (cases "get_pdf_path e w")
  from get_pdf_path_result [OF g] have wr: "written w1 = written w"
    and ok: "\<And>p. r1 = Inr (Some p) \<Longrightarrow> name p \<noteq> []"
    by (auto simp: glob_pdf dest: lower_pdf_nonempty suffix_name)
  from assms i g wr ok show ?thesis
    by (auto simp: interactive_def split: sum.splits option.splits)
qed

lemma banner_written [simp]: "written (banner w) = written w"
  by (simp add: banner_def)

lemma banner_stdin [simp]: "stdin (banner w) = stdin w"
  by (simp add: banner_def)

text \<open>
  C5. When the extraction library raises for the resolved path, \<open>extract_pdf_to_markdown\<close>
  prints the library's message and gives \<open>None\<close>; \<open>main\<close> then exits with status 1, and
  nothing is written: the files written are those from before the run.
\<close>

theorem extraction_failure_exits:
  assumes "resolve e a (banner w) = (Inr p, w1)"
    and "to_markdown e (py_str p) = Inl msg"
  shows "extract_pdf_to_markdown e p w1 =
           (None, print (msg_extract_error msg) (print (msg_extracting p) w1)) \<and>
         main e a w = (Exit 1, print (msg_extract_error msg) (print (msg_extracting p) w1)) \<and>
         exit_status (fst (main e a w)) = 1 \<and>
         written (snd (main e a w)) = written w"
proof -
  have ex: "extract_pdf_to_markdown e p w1 =
              (None, print (msg_extract_error msg) (print (msg_extracting p) w1))"
    using assms(2) by (simp add: extract_pdf_to_markdown_def Let_def)
  then have m: "main e a w = (Exit 1, print (msg_extract_error msg) (print (msg_extracting p) w1))"
    using assms(1) by (simp add: main_def process_def)
  from resolve_result [OF assms(1)] have "written w1 = written w" by simp
  with ex m show ?thesis by simp
qed

theorem extraction_failure_exits_witness:
  "resolve demo_env (Some ''bad.pdf'') (banner (w_in [])) = (Inr (Path ''bad.pdf''), banner (w_in [])) \<and>
   to_markdown demo_env (py_str (Path ''bad.pdf'')) = Inl ''cannot open broken document'' \<and>
   main demo_env (Some ''bad.pdf'') (w_in []) =
     (Exit 1,
      \<lparr>stdin = [],
       stdout = [Print ''PDF to Markdown Extractor'', Print ''------------------------------'',
                 Print ''Extracting text from: bad.pdf'',
                 Print ''Error extracting PDF: cannot open broken document''],
       written = []\<rparr>)"
proof -
  have r: "resolve demo_env (Some ''bad.pdf'') (banner (w_in [])) = (Inr (Path ''bad.pdf''), banner (w_in []))"
    by code_simp
  have t: "to_markdown demo_env (py_str (Path ''bad.pdf'')) = Inl ''cannot open broken document''"
    by code_simp
  have v: "print (msg_extract_error ''cannot open broken document'')
             (print (msg_extracting (Path ''bad.pdf'')) (banner (w_in []))) =
           \<lparr>stdin = [],
            stdout = [Print ''PDF to Markdown Extractor'', Print ''------------------------------'',
                      Print ''Extracting text from: bad.pdf'',
                      Print ''Error extracting PDF: cannot open broken document''],
            written = []\<rparr>"
    by code_simp
  from extraction_failure_exits [OF r t] v r t show ?thesis
    by simp
qed



section \<open>Cancelling\<close>

lemma menu_round:
  assumes "py_input menu_prompt w = (Inr line, w1)"
  shows "strip line = ''1'' \<Longrightarrow> menu_loop e w = get_manual_path e w1"
    and "strip line = ''2'' \<Longrightarrow> find_pdf_files e None = Inr fs \<Longrightarrow> fs \<noteq> [] \<Longrightarrow>
           menu_loop e w = select_from_list e fs w1"
  using assms by (subst menu_loop.simps; simp add: Let_def)+

lemma menu_round_dir:
  assumes "py_input menu_prompt w = (Inr line, w1)" and "strip line = ''3''"
    and "py_input dir_prompt w1 = (Inr line2, w2)"
    and "fs_exists e (Path (strip_quotes (strip line2)))"
    and "find_pdf_files e (Some (strip_quotes (strip line2))) = Inr fs" and "fs \<noteq> []"
  shows "menu_loop e w = select_from_list e fs w2"
  using assms by (subst menu_loop.simps) (simp add: Let_def)

lemma select_round_quit:
  assumes "py_input (select_prompt (length fs)) w = (Inr l, w1)" and "lower (strip l) = ''q''"
  shows "select_loop fs w = (Inr None, w1)"
  using assms by (simp add: select_loop.simps [of fs w])

text \<open>
  C6. Entering \<^verbatim>\<open>q\<close> at the picklist, and answering the retry question of manual entry
  with anything but \<^verbatim>\<open>y\<close>, make the respective function return \<open>None\<close> (a value, not an
  exception); the menu hands that result on as its own; and whenever the interactive
  selection returns \<open>None\<close>, \<open>main\<close> prints \<^verbatim>\<open>No file selected. Exiting.\<close>, exits with
  status 0 and has written no file.
\<close>

theorem cancel_exits_cleanly:
  "(py_input (select_prompt (length fs)) w = (Inr l, w1) \<and> lower (strip l) = ''q'' \<longrightarrow>
      select_loop fs w = (Inr None, w1)) \<and>
   (py_input path_prompt (print tip w) = (Inr line, w1) \<and>
    \<not> fs_exists e (Path (entered_path e line)) \<and>
    py_input retry_prompt
      (print (msg_looked_for e (Path (entered_path e line)))
         (print ''Error: File does not exist.'' w1)) = (Inr answer, w2) \<and>
    lower (strip answer) \<noteq> ''y'' \<longrightarrow>
      get_manual_path e w = (Inr None, w2)) \<and>
   (py_input menu_prompt w = (Inr line, w1) \<and> strip line = ''1'' \<longrightarrow>
      menu_loop e w = get_manual_path e w1) \<and>
   (py_input menu_prompt w = (Inr line, w1) \<and> strip line = ''2'' \<and>
    find_pdf_files e None = Inr fs \<and> fs \<noteq> [] \<longrightarrow>
      menu_loop e w = select_from_list e fs w1) \<and>
   (py_input menu_prompt w = (Inr line, w1) \<and> strip line = ''3'' \<and>
    py_input dir_prompt w1 = (Inr line2, w2) \<and>
    fs_exists e (Path (strip_quotes (strip line2))) \<and>
    find_pdf_files e (Some (strip_quotes (strip line2))) = Inr fs \<and> fs \<noteq> [] \<longrightarrow>
      menu_loop e w = select_from_list e fs w2) \<and>
   ((a = None \<or> a = Some []) \<and> get_pdf_path e (banner w) = (Inr None, w3) \<longrightarrow>
      main e a w = (Exit 0, print ''No file selected. Exiting.'' w3) \<and>
      exit_status (fst (main e a w)) = 0 \<and>
      written (snd (main e a w)) = written w)"
proof (intro conjI impI)
  assume "py_input (select_prompt (length fs)) w = (Inr l, w1) \<and> lower (strip l) = ''q''"
  then show "select_loop fs w = (Inr None, w1)"
    by (simp add: select_round_quit)
next
  assume "py_input path_prompt (print tip w) = (Inr line, w1) \<and>
    \<not> fs_exists e (Path (entered_path e line)) \<and>
    py_input retry_prompt
      (print (msg_looked_for e (Path (entered_path e line)))
         (print ''Error: File does not exist.'' w1)) = (Inr answer, w2) \<and>
    lower (strip answer) \<noteq> ''y''"
  then show "get_manual_path e w = (Inr None, w2)"
    using manual_round_missing [of w line w1 e answer w2] by simp
next
  assume "py_input menu_prompt w = (Inr line, w1) \<and> strip line = ''1''"
  then show "menu_loop e w = get_manual_path e w1"
    by (simp add: menu_round)
next
  assume "py_input menu_prompt w = (Inr line, w1) \<and> strip line = ''2'' \<and>
    find_pdf_files e None = Inr fs \<and> fs \<noteq> []"
  then show "menu_loop e w = select_from_list e fs w1"
    by (simp add: menu_round)
next
  assume "py_input menu_prompt w = (Inr line, w1) \<and> strip line = ''3'' \<and>
    py_input dir_prompt w1 = (Inr line2, w2) \<and>
    fs_exists e (Path (strip_quotes (strip line2))) \<and>
    find_pdf_files e (Some (strip_quotes (strip line2))) = Inr fs \<and> fs \<noteq> []"
  then show "menu_loop e w = select_from_list e fs w2"
    by (simp add: menu_round_dir)
next
  assume a: "(a = None \<or> a = Some []) \<and> get_pdf_path e (banner w) = (Inr None, w3)"
  then have m: "main e a w = (Exit 0, print ''No file selected. Exiting.'' w3)"
    by (auto simp: main_def resolve_def interactive_def)
  from a get_pdf_path_result [of e "banner w" "Inr None" w3] have "written w3 = written w"
    by simp
  from m show "main e a w = (Exit 0, print ''No file selected. Exiting.'' w3)" .
  from m show "exit_status (fst (main e a w)) = 0" by simp
  from m \<open>written w3 = written w\<close> show "written (snd (main e a w)) = written w" by simp
qed


theorem cancel_exits_cleanly_witness:
  "select_loop demo_files (w_in [''Q'']) =
     (Inr None, snd (py_input (select_prompt (length demo_files)) (w_in [''Q'']))) \<and>
   fst (get_manual_path demo_env (w_in [''nofile.pdf'', ''n''])) = Inr None \<and>
   main demo_env None (w_in [''2'', ''q'']) =
     (Exit 0, print ''No file selected. Exiting.''
                (snd (get_pdf_path demo_env (banner (w_in [''2'', ''q'']))))) \<and>
   written (snd (main demo_env None (w_in [''2'', ''q'']))) = [] \<and>
   exit_status (fst (main demo_env None (w_in [''1'', ''nofile.pdf'', ''n'']))) = 0 \<and>
   written (snd (main demo_env None (w_in [''1'', ''nofile.pdf'', ''n'']))) = []"
proof -
  let ?p = "select_prompt (length demo_files)"
  have a: "py_input ?p (w_in [''Q'']) = (Inr ''Q'', snd (py_input ?p (w_in [''Q''])))
             \<and> lower (strip ''Q'') = ''q''"
    by code_simp
  from cancel_exits_cleanly [where fs = demo_files and w = "w_in [''Q'']" and l = "''Q''"
      and ?w1.0 = "snd (py_input ?p (w_in [''Q'']))"] a
  have 1: "select_loop demo_files (w_in [''Q'']) = (Inr None, snd (py_input ?p (w_in [''Q''])))"
    by blast
  let ?w = "w_in [''nofile.pdf'', ''n'']"
  let ?w1 = "snd (py_input path_prompt (print tip ?w))"
  let ?ask = "print (msg_looked_for demo_env (Path (entered_path demo_env ''nofile.pdf'')))
                (print ''Error: File does not exist.'' ?w1)"
  let ?w2 = "snd (py_input retry_prompt ?ask)"
  have b: "py_input path_prompt (print tip ?w) = (Inr ''nofile.pdf'', ?w1) \<and>
           \<not> fs_exists demo_env (Path (entered_path demo_env ''nofile.pdf'')) \<and>
           py_input retry_prompt ?ask = (Inr ''n'', ?w2) \<and>
           lower (strip ''n'') \<noteq> ''y''"
    by code_simp
  from cancel_exits_cleanly [where e = demo_env and w = ?w and line = "''nofile.pdf''"
      and ?w1.0 = ?w1 and answer = "''n''" and ?w2.0 = ?w2] b
  have "get_manual_path demo_env ?w = (Inr None, ?w2)"
    by blast
  then have 2: "fst (get_manual_path demo_env ?w) = Inr None"
    by simp
  let ?m1 = "w_in [''2'', ''q'']"
  have "fst (get_pdf_path demo_env (banner ?m1)) = Inr None"
    by code_simp
  then have c: "get_pdf_path demo_env (banner ?m1) = (Inr None, snd (get_pdf_path demo_env (banner ?m1)))"
    by (simp add: prod_eq_iff)
  from cancel_exits_cleanly [where a = None and e = demo_env and w = ?m1
      and ?w3.0 = "snd (get_pdf_path demo_env (banner ?m1))"] c
  have 3: "main demo_env None ?m1 =
             (Exit 0, print ''No file selected. Exiting.'' (snd (get_pdf_path demo_env (banner ?m1))))
           \<and> written (snd (main demo_env None ?m1)) = written ?m1"
    by blast
  let ?m2 = "w_in [''1'', ''nofile.pdf'', ''n'']"
  have "fst (get_pdf_path demo_env (banner ?m2)) = Inr None"
    by code_simp
  then have d: "get_pdf_path demo_env (banner ?m2) = (Inr None, snd (get_pdf_path demo_env (banner ?m2)))"
    by (simp add: prod_eq_iff)
  from cancel_exits_cleanly [where a = None and e = demo_env and w = ?m2
      and ?w3.0 = "snd (get_pdf_path demo_env (banner ?m2))"] d
  have 4: "exit_status (fst (main demo_env None ?m2)) = 0
           \<and> written (snd (main demo_env None ?m2)) = written ?m2"
    by blast
  have e: "written ?m1 = [] \<and> written ?m2 = []"
    by (simp add: w_in_def)
  from 1 2 3 4 e show ?thesis
    by metis
qed



section \<open>The command-line argument\<close>

lemma resolve_argument:
  assumes "s \<noteq> []"
  shows "resolve e (Some s) w =
           (if \<not> fs_exists e (Path s) then (Inl (Exit 1), print (msg_missing s) w)
            else if lower (suffix (Path s)) \<noteq> ''.pdf'' then (Inl (Exit 1), print (msg_arg_not_pdf s) w)
            else (Inr (Path s), w))"
  using assms by (simp add: resolve_def Let_def)

lemma Path_empty: "Path [] = \<lparr>root = [], parts = []\<rparr>"
  by (simp add: Path_def startswith_def)

lemma lower_suffix_pdf_name: "lower (suffix p) = ''.pdf'' \<Longrightarrow> name p \<noteq> []"
  by (auto dest: lower_pdf_nonempty suffix_name)

text \<open>
  C2. A command-line argument \<open>s\<close> is accepted exactly when \<open>Path s\<close> exists and its suffix,
  lower-cased, is \<^verbatim>\<open>.pdf\<close>: then the resolved path is \<open>Path s\<close>; otherwise the resolved
  path is never \<open>Path s\<close> and, for a non-empty argument, the run ends in \<^verbatim>\<open>sys.exit(1)\<close>.
  Manual entry accepts the entered path in the round it is typed when it exists and has
  such a suffix, and whatever path manual entry returns exists and has such a suffix.
\<close>

theorem resolver_accepts_existing_pdf_only:
  "(fs_exists e (Path s) \<and> lower (suffix (Path s)) = ''.pdf'' \<longrightarrow>
      resolve e (Some s) w = (Inr (Path s), w)) \<and>
   (\<not> (fs_exists e (Path s) \<and> lower (suffix (Path s)) = ''.pdf'') \<longrightarrow>
      fst (resolve e (Some s) w) \<noteq> Inr (Path s) \<and>
      (s \<noteq> [] \<longrightarrow> fst (resolve e (Some s) w) = Inl (Exit 1))) \<and>
   (py_input path_prompt (print tip w) = (Inr line, w1) \<and>
    fs_exists e (Path (entered_path e line)) \<and>
    lower (suffix (Path (entered_path e line))) = ''.pdf'' \<longrightarrow>
      get_manual_path e w = (Inr (Some (Path (entered_path e line))), w1)) \<and>
   (\<forall>p. fst (get_manual_path e w) = Inr (Some p) \<longrightarrow>
      fs_exists e p \<and> lower (suffix p) = ''.pdf'')"
proof (intro conjI impI allI)
  assume a: "fs_exists e (Path s) \<and> lower (suffix (Path s)) = ''.pdf''"
  then have "name (Path s) \<noteq> []" by (simp add: lower_suffix_pdf_name)
  then have "s \<noteq> []" by (auto simp: Path_empty name_def)
  with a show "resolve e (Some s) w = (Inr (Path s), w)"
    by (simp add: resolve_argument)
next
  assume a: "\<not> (fs_exists e (Path s) \<and> lower (suffix (Path s)) = ''.pdf'')"
  show "fst (resolve e (Some s) w) \<noteq> Inr (Path s)"
  proof (cases "s = []")
    case False
    with a show ?thesis by (auto simp: resolve_argument)
  next
    case True
    obtain r w' where r: "resolve e (Some s) w = (r, w')"
      by (cases "resolve e (Some s) w")
    from resolve_result [OF r] have "\<forall>p. r = Inr p \<longrightarrow> name p \<noteq> []" by simp
    moreover have "name (Path s) = []" using True by (simp add: Path_empty name_def)
    ultimately show ?thesis using r by auto
  qed
  show "fst (resolve e (Some s) w) = Inl (Exit 1)" if "s \<noteq> []"
    using that a by (auto simp: resolve_argument)
next
  assume "py_input path_prompt (print tip w) = (Inr line, w1) \<and>
    fs_exists e (Path (entered_path e line)) \<and>
    lower (suffix (Path (entered_path e line))) = ''.pdf''"
  then show "get_manual_path e w = (Inr (Some (Path (entered_path e line))), w1)"
    by (simp add: manual_round_accept)
next
  fix p
  assume a: "fst (get_manual_path e w) = Inr (Some p)"
  obtain r w' where g: "get_manual_path e w = (r, w')"
    by (cases "get_manual_path e w")
  with a have "r = Inr (Some p)" by simp
  with get_manual_path_result [OF g]
  show "fs_exists e p" and "lower (suffix p) = ''.pdf''" by simp_all
qed

theorem resolver_accepts_existing_pdf_only_witness:
  "resolve demo_env (Some ''report.PDF'') (w_in []) = (Inr (Path ''report.PDF''), w_in []) \<and>
   fst (resolve demo_env (Some ''missing.pdf'') (w_in [])) = Inl (Exit 1) \<and>
   fst (resolve demo_env (Some ''notes.txt'') (w_in [])) = Inl (Exit 1) \<and>
   fst (get_manual_path demo_env (w_in [''  report.PDF ''])) = Inr (Some (Path ''report.PDF''))"
proof -
  have a: "fs_exists demo_env (Path ''report.PDF'') \<and> lower (suffix (Path ''report.PDF'')) = ''.pdf''"
    by code_simp
  from resolver_accepts_existing_pdf_only [where e = demo_env and s = "''report.PDF''" and w = "w_in []"] a
  have 1: "resolve demo_env (Some ''report.PDF'') (w_in []) = (Inr (Path ''report.PDF''), w_in [])"
    by blast
  have b: "\<not> (fs_exists demo_env (Path ''missing.pdf'') \<and> lower (suffix (Path ''missing.pdf'')) = ''.pdf'')
            \<and> ''missing.pdf'' \<noteq> []"
    by code_simp
  from resolver_accepts_existing_pdf_only [where e = demo_env and s = "''missing.pdf''" and w = "w_in []"] b
  have 2: "fst (resolve demo_env (Some ''missing.pdf'') (w_in [])) = Inl (Exit 1)"
    by blast
  have c: "\<not> (fs_exists demo_env (Path ''notes.txt'') \<and> lower (suffix (Path ''notes.txt'')) = ''.pdf'')
            \<and> ''notes.txt'' \<noteq> []"
    by code_simp
  from resolver_accepts_existing_pdf_only [where e = demo_env and s = "''notes.txt''" and w = "w_in []"] c
  have 3: "fst (resolve demo_env (Some ''notes.txt'') (w_in [])) = Inl (Exit 1)"
    by blast
  let ?w = "w_in [''  report.PDF '']"
  have d: "py_input path_prompt (print tip ?w) = (Inr ''  report.PDF '', snd (py_input path_prompt (print tip ?w))) \<and>
           fs_exists demo_env (Path (entered_path demo_env ''  report.PDF '')) \<and>
           lower (suffix (Path (entered_path demo_env ''  report.PDF ''))) = ''.pdf'' \<and>
           Path (entered_path demo_env ''  report.PDF '') = Path ''report.PDF''"
    by code_simp
  from resolver_accepts_existing_pdf_only [where e = demo_env and w = ?w and line = "''  report.PDF ''"
      and ?w1.0 = "snd (py_input path_prompt (print tip ?w))"] d
  have "get_manual_path demo_env ?w =
          (Inr (Some (Path (entered_path demo_env ''  report.PDF ''))), snd (py_input path_prompt (print tip ?w)))"
    by blast
  with d have 4: "fst (get_manual_path demo_env ?w) = Inr (Some (Path ''report.PDF''))"
    by simp
  from 1 2 3 4 show ?thesis by blast
qed






section \<open>The output path\<close>




lemma lower_length [simp]: "length (lower s) = length s"
  by (simp add: lower_def)





section \<open>What the search can and cannot find\<close>

lemma resolve_accepts:
  assumes "fs_exists e (Path s)" and "lower (suffix (Path s)) = ''.pdf''"
  shows "resolve e (Some s) w = (Inr (Path s), w)"
proof -
  from assms(2) have "name (Path s) \<noteq> []" by (rule lower_suffix_pdf_name)
  then have "s \<noteq> []" by (auto simp: Path_empty name_def)
  with assms show ?thesis by (simp add: resolve_argument)
qed

lemma lower_PDF: "lower ''.PDF'' = ''.pdf''"
  by code_simp

lemma not_upper_pdf: "n = a @ ''.pdf'' \<Longrightarrow> n \<noteq> b @ ''.PDF''"
proof
  assume 1: "n = a @ ''.pdf''" and 2: "n = b @ ''.PDF''"
  then have "last n = CHR ''f''" and "last n = CHR ''F''" by simp_all
  then show False by simp
qed

text \<open>
  C10. Every entry of a list returned by \<open>find_pdf_files\<close> is a regular file
  (\<open>is_file\<close> answered \<open>True\<close>) whose name ends in lower-case \<^verbatim>\<open>.pdf\<close>, since that is all the
  pattern \<^verbatim>\<open>*.pdf\<close> matches; so no entry has a name ending in \<^verbatim>\<open>.PDF\<close>. A path with the
  suffix \<^verbatim>\<open>.PDF\<close> that exists is nevertheless accepted as a command-line argument and at
  manual entry.
\<close>

theorem search_finds_lowercase_pdf_files_only:
  "(find_pdf_files e d = Inr fs \<and> p \<in> set fs \<longrightarrow>
      fs_is_file e p = Inr True \<and> (\<exists>a. name p = a @ ''.pdf'') \<and> (\<forall>b. name p \<noteq> b @ ''.PDF'')) \<and>
   (\<forall>n. glob_match ''*.pdf'' n = (\<exists>a. n = a @ ''.pdf'')) \<and>
   (fs_exists e (Path s) \<and> suffix (Path s) = ''.PDF'' \<longrightarrow>
      resolve e (Some s) w = (Inr (Path s), w)) \<and>
   (py_input path_prompt (print tip w) = (Inr line, w1) \<and>
    fs_exists e (Path (entered_path e line)) \<and> suffix (Path (entered_path e line)) = ''.PDF'' \<longrightarrow>
      get_manual_path e w = (Inr (Some (Path (entered_path e line))), w1))"
proof (intro conjI impI allI)
  assume a: "find_pdf_files e d = Inr fs \<and> p \<in> set fs"
  then have m: "fs_is_file e p = Inr True \<and> glob_match ''*.pdf'' (name p)"
    using find_pdf_files_members [of e d fs p] by simp
  then show "fs_is_file e p = Inr True" by simp
  from m show ex: "\<exists>a. name p = a @ ''.pdf''" by (simp add: glob_pdf)
  fix b
  from ex show "name p \<noteq> b @ ''.PDF''" by (auto dest: not_upper_pdf)
next
  fix n
  show "glob_match ''*.pdf'' n = (\<exists>a. n = a @ ''.pdf'')" by (rule glob_pdf)
next
  assume "fs_exists e (Path s) \<and> suffix (Path s) = ''.PDF''"
  then show "resolve e (Some s) w = (Inr (Path s), w)"
    by (simp add: resolve_accepts lower_PDF)
next
  assume "py_input path_prompt (print tip w) = (Inr line, w1) \<and>
    fs_exists e (Path (entered_path e line)) \<and> suffix (Path (entered_path e line)) = ''.PDF''"
  then show "get_manual_path e w = (Inr (Some (Path (entered_path e line))), w1)"
    by (simp add: manual_round_accept lower_PDF)
qed

theorem search_finds_lowercase_pdf_files_only_witness:
  "find_pdf_files demo_env None = Inr [Path ''/home/u/a.pdf'', Path ''/srv/c.pdf''] \<and>
   fs_is_file demo_env (Path ''/srv/c.pdf'') = Inr True \<and>
   (\<exists>a. name (Path ''/srv/c.pdf'') = a @ ''.pdf'') \<and>
   Inr (Path ''/home/u/B.PDF'') \<in> set (fs_walk demo_env (search_root demo_env None)) \<and>
   fs_is_file demo_env (Path ''/home/u/B.PDF'') = Inr True \<and>
   \<not> glob_match ''*.pdf'' (name (Path ''/home/u/B.PDF'')) \<and>
   Inr (Path ''/home/u/d.pdf'') \<in> set (fs_walk demo_env (search_root demo_env None)) \<and>
   fs_is_file demo_env (Path ''/home/u/d.pdf'') = Inr False \<and>
   resolve demo_env (Some ''report.PDF'') (w_in []) = (Inr (Path ''report.PDF''), w_in [])"
proof -
  have f: "find_pdf_files demo_env None = Inr [Path ''/home/u/a.pdf'', Path ''/srv/c.pdf'']"
    by code_simp
  have i: "Path ''/srv/c.pdf'' \<in> set [Path ''/home/u/a.pdf'', Path ''/srv/c.pdf'']"
    by simp
  from search_finds_lowercase_pdf_files_only
         [where e = demo_env and d = None and fs = "[Path ''/home/u/a.pdf'', Path ''/srv/c.pdf'']"
            and p = "Path ''/srv/c.pdf''"] f i
  have 1: "fs_is_file demo_env (Path ''/srv/c.pdf'') = Inr True \<and>
           (\<exists>a. name (Path ''/srv/c.pdf'') = a @ ''.pdf'')"
    by blast
  have n: "name (Path ''/home/u/B.PDF'') = ''B'' @ ''.PDF''"
    by code_simp
  from search_finds_lowercase_pdf_files_only [where e = demo_env]
  have g: "glob_match ''*.pdf'' (name (Path ''/home/u/B.PDF'')) =
             (\<exists>a. name (Path ''/home/u/B.PDF'') = a @ ''.pdf'')"
    by blast
  have 2: "\<not> glob_match ''*.pdf'' (name (Path ''/home/u/B.PDF''))"
    unfolding g using n not_upper_pdf by metis
  have 3: "Inr (Path ''/home/u/B.PDF'') \<in> set (fs_walk demo_env (search_root demo_env None)) \<and>
           fs_is_file demo_env (Path ''/home/u/B.PDF'') = Inr True \<and>
           Inr (Path ''/home/u/d.pdf'') \<in> set (fs_walk demo_env (search_root demo_env None)) \<and>
           fs_is_file demo_env (Path ''/home/u/d.pdf'') = Inr False"
    by code_simp
  have e: "fs_exists demo_env (Path ''report.PDF'') \<and> suffix (Path ''report.PDF'') = ''.PDF''"
    by code_simp
  from search_finds_lowercase_pdf_files_only [where e = demo_env and s = "''report.PDF''" and w = "w_in []"] e
  have 4: "resolve demo_env (Some ''report.PDF'') (w_in []) = (Inr (Path ''report.PDF''), w_in [])"
    by blast
  from f 1 2 3 4 show ?thesis by blast
qed

section \<open>Permission errors during the search\<close>

lemma find_loop_prefix:
  assumes "\<forall>p \<in> set ps. fs_is_file e p = Inr True \<or> fs_is_file e p = Inr False"
    and "length (acc @ regular_files e ps) < 20"
  shows "find_loop e (map Inr ps @ rest) acc = find_loop e rest (acc @ regular_files e ps)"
  using assms
proof (induction ps arbitrary: acc)
  case Nil
  then show ?case by (simp add: regular_files_def)
next
  case (Cons p ps)
  show ?case
  proof (cases "fs_is_file e p = Inr True")
    case True
    with Cons.prems(2) have l: "length ((acc @ [p]) @ regular_files e ps) < 20"
      by (simp add: regular_files_def)
    then have "\<not> 20 \<le> Suc (length acc)" by simp
    moreover from Cons.prems(1) have "\<forall>q \<in> set ps. fs_is_file e q = Inr True \<or> fs_is_file e q = Inr False"
      by simp
    from Cons.IH [OF this l]
    have "find_loop e (map Inr ps @ rest) (acc @ [p]) = find_loop e rest ((acc @ [p]) @ regular_files e ps)" .
    ultimately show ?thesis using True by (simp add: regular_files_def)
  next
    case False
    with Cons.prems(1) have f: "fs_is_file e p = Inr False" by simp
    with Cons.prems(2) have l: "length (acc @ regular_files e ps) < 20"
      by (simp add: regular_files_def)
    from Cons.prems(1) have "\<forall>q \<in> set ps. fs_is_file e q = Inr True \<or> fs_is_file e q = Inr False"
      by simp
    from Cons.IH [OF this l] f show ?thesis by (simp add: regular_files_def)
  qed
qed

lemma find_loop_raises:
  "raises_permission_error e x \<Longrightarrow> find_loop e (x # post) acc = (Some PermissionError, acc)"
  by (cases x) (auto simp: raises_permission_error_def)

text \<open>
  C8 as amended. When the sequence of matches reaches an element at which a
  \<^verbatim>\<open>PermissionError\<close> is raised (by the traversal or by \<open>is_file\<close>), fewer than 20 regular
  files having been collected from the entries \<open>ps\<close> before it, the search does not fail:
  it returns exactly the regular files among \<open>ps\<close>, in order. Nothing of what follows
  the error in the traversal (\<open>post\<close>) is examined.
\<close>

theorem permission_error_ends_search:
  assumes "rglob e (search_root e d) ''*.pdf'' = map Inr ps @ x # post"
    and "\<forall>p \<in> set ps. fs_is_file e p = Inr True \<or> fs_is_file e p = Inr False"
    and "raises_permission_error e x"
    and "length (regular_files e ps) < 20"
  shows "find_pdf_files e d = Inr (regular_files e ps)"
proof -
  from assms(4) have "length ([] @ regular_files e ps) < 20" by simp
  from find_loop_prefix [OF assms(2) this, of "x # post"]
  have "find_loop e (map Inr ps @ x # post) [] = find_loop e (x # post) (regular_files e ps)"
    by simp
  also from assms(3) have "\<dots> = (Some PermissionError, regular_files e ps)"
    by (rule find_loop_raises)
  finally show ?thesis
    using assms(1) by (simp add: find_pdf_files_def)
qed

theorem permission_error_ends_search_witness:
  "rglob demo_env (search_root demo_env None) ''*.pdf'' =
     map Inr [Path ''/home/u/a.pdf'', Path ''/home/u/d.pdf'', Path ''/srv/c.pdf''] @
       Inr (Path ''/home/u/locked/b.pdf'') # [Inr (Path ''/home/u/z.pdf'')] \<and>
   raises_permission_error demo_env (Inr (Path ''/home/u/locked/b.pdf'')) \<and>
   find_pdf_files demo_env None = Inr [Path ''/home/u/a.pdf'', Path ''/srv/c.pdf'']"
proof -
  let ?ps = "[Path ''/home/u/a.pdf'', Path ''/home/u/d.pdf'', Path ''/srv/c.pdf'']"
  have a: "rglob demo_env (search_root demo_env None) ''*.pdf'' =
     map Inr ?ps @ Inr (Path ''/home/u/locked/b.pdf'') # [Inr (Path ''/home/u/z.pdf'')]"
    by code_simp
  have b: "\<forall>p \<in> set ?ps. fs_is_file demo_env p = Inr True \<or> fs_is_file demo_env p = Inr False"
    by code_simp
  have c: "raises_permission_error demo_env (Inr (Path ''/home/u/locked/b.pdf''))"
    by code_simp
  have d: "length (regular_files demo_env ?ps) < 20"
    by code_simp
  have r: "regular_files demo_env ?ps = [Path ''/home/u/a.pdf'', Path ''/srv/c.pdf'']"
    by code_simp
  from permission_error_ends_search [OF a b c d] r a c show ?thesis
    by simp
qed

text \<open>
  C8 as stated does not hold where examining an entry is refused: the search returns what
  it has collected, and the readable file \<^verbatim>\<open>z.pdf\<close>, which follows in the traversal, is
  not among the results although only two files were found.
\<close>

theorem search_abandoned_counterexample:
  "fs_is_file demo_env (Path ''/home/u/locked/b.pdf'') = Inl PermissionError \<and>
   find_pdf_files demo_env None = Inr [Path ''/home/u/a.pdf'', Path ''/srv/c.pdf''] \<and>
   Inr (Path ''/home/u/z.pdf'') \<in> set (rglob demo_env (search_root demo_env None) ''*.pdf'') \<and>
   fs_is_file demo_env (Path ''/home/u/z.pdf'') = Inr True \<and>
   Path ''/home/u/z.pdf'' \<notin> set [Path ''/home/u/a.pdf'', Path ''/srv/c.pdf'']"
  by code_simp



section \<open>Sanitising a manually entered path\<close>

lemma startswith_char: "startswith s [q] = (s \<noteq> [] \<and> hd s = q)"
  by (cases s) (auto simp: startswith_def)

lemma endswith_char: "endswith s [q] = (s \<noteq> [] \<and> last s = q)"
proof (cases "s = []")
  case True
  then show ?thesis by (simp add: endswith_def)
next
  case False
  then have "s = butlast s @ [last s]" by simp
  then have "drop (length s - 1) s = [last s]"
    by (metis append_eq_conv_conj length_butlast)
  with False show ?thesis
    by (cases s) (auto simp: endswith_def)
qed

lemma slice_1_m1_butlast_tl: "slice_1_m1 s = butlast (tl s)"
  by (simp add: slice_1_m1_def butlast_conv_take drop_Suc)

lemma strip_quotes_spec: "strip_quotes s = spec_unquote s"
  by (simp add: strip_quotes_def spec_unquote_def quoted_by_def startswith_char endswith_char
        slice_1_m1_butlast_tl)

lemma strip_file_url_spec: "strip_file_url s = spec_unscheme s"
  by (cases s rule: spec_unscheme.cases)
     (auto simp: strip_file_url_def startswith_def slice_from_def)

lemma find_slash_0:
  "find_slash_from 0 r =
     (if CHR ''/'' \<in> set r then Some (length (takeWhile (\<lambda>x. x \<noteq> CHR ''/'') r)) else None)"
  by (induction r) auto

lemma expanduser_spec: "expanduser e s = spec_tilde e s"
proof (cases s)
  case Nil
  then show ?thesis by (simp add: expanduser_def spec_tilde_def startswith_def)
next
  case (Cons c r)
  show ?thesis
  proof (cases "c = CHR ''~''")
    case False
    with Cons show ?thesis by (simp add: expanduser_def spec_tilde_def startswith_def)
  next
    case True
    let ?u = "takeWhile (\<lambda>x. x \<noteq> CHR ''/'') r"
    let ?i = "case find_slash_from 1 s of None \<Rightarrow> length s | Some j \<Rightarrow> j"
    have i: "?i = Suc (length ?u)"
    proof (cases "CHR ''/'' \<in> set r")
      case True
      with Cons show ?thesis by (simp add: find_slash_0)
    next
      case False
      then have tw: "?u = r" by (auto simp: takeWhile_eq_all_conv)
      from False Cons show ?thesis by (simp add: find_slash_0 tw)
    qed
    have u: "take (?i - 1) (drop 1 s) = ?u"
      using Cons i by (simp add: takeWhile_eq_take [symmetric])
    have d: "drop ?i s = dropWhile (\<lambda>x. x \<noteq> CHR ''/'') r"
      using Cons i by (simp add: dropWhile_eq_drop [symmetric])
    have one: "(?i = 1) = (?u = [])"
      using i by simp
    show ?thesis
      unfolding expanduser_def spec_tilde_def Let_def u d one
      using Cons True by (simp add: startswith_def)
  qed
qed

lemma entered_path_spec: "entered_path e line = spec_sanitize e (strip line)"
  by (simp add: entered_path_def spec_sanitize_def strip_quotes_spec strip_file_url_spec expanduser_spec)


lemma spec_unquote_layer:
  assumes "q = dquote \<or> q = squote"
  shows "spec_unquote (q # t @ [q]) = t"
  using assms by (auto simp: spec_unquote_def quoted_by_def butlast_append)

lemma spec_unscheme_prefix: "spec_unscheme (''file://'' @ r) = r"
  by simp

lemma spec_unscheme_other: "\<not> startswith s ''file://'' \<Longrightarrow> spec_unscheme s = s"
  by (cases s rule: spec_unscheme.cases) (auto simp: startswith_def)

lemma spec_tilde_home: "spec_tilde e (''~/'' @ r) = rstrip_slash (home_dir e) @ ''/'' @ r"
  by (simp add: spec_tilde_def)

lemma spec_tilde_other: "\<not> startswith s ''~'' \<Longrightarrow> spec_tilde e s = s"
  by (cases s) (auto simp: spec_tilde_def startswith_def)

text \<open>
  C4. The path that one round of manual entry examines is made from the line read (blanks
  at both ends dropped by \<^verbatim>\<open>strip()\<close>) by the three steps in the order of the
  specification: one layer of surrounding quotes is taken off, then a leading
  \<^verbatim>\<open>file://\<close>, then a leading \<^verbatim>\<open>~\<close> is expanded. Taking quotes off a string that starts and
  ends with the same kind of quote removes exactly those two characters, whatever lies
  between them, so quotes further in stay; a string that does not both start and end
  with a double quote, nor both with a single quote, is left alone. (A string that is one
  quote character starts and ends with it, and becomes empty.) \<^verbatim>\<open>~/rest\<close> becomes the home
  directory followed by \<^verbatim>\<open>/rest\<close>. The path so made is then tested for existence and,
  if it exists, for its suffix.
\<close>

theorem manual_entry_sanitizing:
  "entered_path e line = spec_sanitize e (strip line) \<and>
   (\<forall>q t. q = dquote \<or> q = squote \<longrightarrow> spec_unquote (q # t @ [q]) = t) \<and>
   (\<forall>s. \<not> quoted_by dquote s \<and> \<not> quoted_by squote s \<longrightarrow> spec_unquote s = s) \<and>
   (\<forall>r. spec_unscheme (''file://'' @ r) = r) \<and>
   (\<forall>s. \<not> startswith s ''file://'' \<longrightarrow> spec_unscheme s = s) \<and>
   (\<forall>r. spec_tilde e (''~/'' @ r) = rstrip_slash (home_dir e) @ ''/'' @ r) \<and>
   (\<forall>s. \<not> startswith s ''~'' \<longrightarrow> spec_tilde e s = s) \<and>
   (py_input path_prompt (print tip w) = (Inr line, w1) \<longrightarrow>
      (fs_exists e (Path (spec_sanitize e (strip line))) \<and>
       lower (suffix (Path (spec_sanitize e (strip line)))) = ''.pdf'' \<longrightarrow>
         get_manual_path e w = (Inr (Some (Path (spec_sanitize e (strip line)))), w1)) \<and>
      (fs_exists e (Path (spec_sanitize e (strip line))) \<and>
       lower (suffix (Path (spec_sanitize e (strip line)))) \<noteq> ''.pdf'' \<longrightarrow>
         get_manual_path e w =
           get_manual_path e (print (msg_not_pdf (spec_sanitize e (strip line))) w1)) \<and>
      (\<not> fs_exists e (Path (spec_sanitize e (strip line))) \<longrightarrow>
         get_manual_path e w =
           (case py_input retry_prompt
                   (print (msg_looked_for e (Path (spec_sanitize e (strip line))))
                      (print ''Error: File does not exist.'' w1)) of
              (Inl ex, w2) \<Rightarrow> (Inl ex, w2)
            | (Inr answer, w2) \<Rightarrow>
                if lower (strip answer) \<noteq> ''y'' then (Inr None, w2)
                else get_manual_path e w2)))"
proof -
  have 1: "entered_path e line = spec_sanitize e (strip line)"
    by (rule entered_path_spec)
  have 2: "\<forall>q t. q = dquote \<or> q = squote \<longrightarrow> spec_unquote (q # t @ [q]) = t"
    by (simp add: spec_unquote_layer)
  have 3: "\<forall>s. \<not> quoted_by dquote s \<and> \<not> quoted_by squote s \<longrightarrow> spec_unquote s = s"
    by (simp add: spec_unquote_def)
  have 4: "\<forall>r. spec_unscheme (''file://'' @ r) = r"
    by simp
  have 5: "\<forall>s. \<not> startswith s ''file://'' \<longrightarrow> spec_unscheme s = s"
    by (simp add: spec_unscheme_other)
  have 6: "\<forall>r. spec_tilde e (''~/'' @ r) = rstrip_slash (home_dir e) @ ''/'' @ r"
    using spec_tilde_home by blast
  have 7: "\<forall>s. \<not> startswith s ''~'' \<longrightarrow> spec_tilde e s = s"
    by (simp add: spec_tilde_other)
  have 8: "fs_exists e (Path (spec_sanitize e (strip line))) \<and>
       lower (suffix (Path (spec_sanitize e (strip line)))) = ''.pdf'' \<longrightarrow>
         get_manual_path e w = (Inr (Some (Path (spec_sanitize e (strip line)))), w1)"
    if "py_input path_prompt (print tip w) = (Inr line, w1)"
    using that manual_round_accept [of w line w1 e] by (simp add: 1)
  have 9: "fs_exists e (Path (spec_sanitize e (strip line))) \<and>
       lower (suffix (Path (spec_sanitize e (strip line)))) \<noteq> ''.pdf'' \<longrightarrow>
         get_manual_path e w =
           get_manual_path e (print (msg_not_pdf (spec_sanitize e (strip line))) w1)"
    if "py_input path_prompt (print tip w) = (Inr line, w1)"
    using that manual_round_not_pdf [of w line w1 e] by (simp add: 1)
  have 10: "\<not> fs_exists e (Path (spec_sanitize e (strip line))) \<longrightarrow>
         get_manual_path e w =
           (case py_input retry_prompt
                   (print (msg_looked_for e (Path (spec_sanitize e (strip line))))
                      (print ''Error: File does not exist.'' w1)) of
              (Inl ex, w2) \<Rightarrow> (Inl ex, w2)
            | (Inr answer, w2) \<Rightarrow>
                if lower (strip answer) \<noteq> ''y'' then (Inr None, w2)
                else get_manual_path e w2)"
    if "py_input path_prompt (print tip w) = (Inr line, w1)"
    using that by (subst get_manual_path.simps) (simp add: Let_def 1)
  from 1 2 3 4 5 6 7 8 9 10 show ?thesis
    by blast
qed

theorem manual_entry_sanitizing_witness:
  "entered_path demo_env ('' '' @ dquote # ''file://~/a.pdf'' @ [dquote] @ ''  '') = ''/home/u/a.pdf'' \<and>
   spec_unquote (squote # (dquote # ''a.pdf'' @ [dquote]) @ [squote]) = dquote # ''a.pdf'' @ [dquote] \<and>
   spec_unquote (dquote # ''a.pdf'' @ [squote]) = dquote # ''a.pdf'' @ [squote] \<and>
   spec_unscheme ''file:///docs/a.pdf'' = ''/docs/a.pdf'' \<and>
   spec_tilde demo_env ''~/a.pdf'' = ''/home/u/a.pdf'' \<and>
   fst (get_manual_path demo_env (w_in ['' '' @ dquote # ''file://~/a.pdf'' @ [dquote] @ ''  ''])) =
     Inr (Some (Path ''/home/u/a.pdf''))"
proof -
  let ?line = "'' '' @ dquote # ''file://~/a.pdf'' @ [dquote] @ ''  ''"
  let ?w = "w_in [?line]"
  note t = manual_entry_sanitizing [where e = demo_env and line = ?line and w = ?w
             and ?w1.0 = "snd (py_input path_prompt (print tip ?w))"]
  have v: "spec_sanitize demo_env (strip ?line) = ''/home/u/a.pdf''"
    by code_simp
  from t v have 1: "entered_path demo_env ?line = ''/home/u/a.pdf''"
    by simp
  have q: "squote = dquote \<or> squote = squote" by simp
  from t q have 2: "spec_unquote (squote # (dquote # ''a.pdf'' @ [dquote]) @ [squote]) = dquote # ''a.pdf'' @ [dquote]"
    by blast
  have n: "\<not> quoted_by dquote (dquote # ''a.pdf'' @ [squote]) \<and> \<not> quoted_by squote (dquote # ''a.pdf'' @ [squote])"
    by code_simp
  from t n have 3: "spec_unquote (dquote # ''a.pdf'' @ [squote]) = dquote # ''a.pdf'' @ [squote]"
    by blast
  from t have "spec_unscheme (''file://'' @ ''/docs/a.pdf'') = ''/docs/a.pdf''"
    by blast
  then have 4: "spec_unscheme ''file:///docs/a.pdf'' = ''/docs/a.pdf''"
    by simp
  from t have "spec_tilde demo_env (''~/'' @ ''a.pdf'') = rstrip_slash (home_dir demo_env) @ ''/'' @ ''a.pdf''"
    by blast
  moreover have "rstrip_slash (home_dir demo_env) @ ''/'' @ ''a.pdf'' = ''/home/u/a.pdf''"
    by code_simp
  ultimately have 5: "spec_tilde demo_env ''~/a.pdf'' = ''/home/u/a.pdf''"
    by simp
  have i: "py_input path_prompt (print tip ?w) = (Inr ?line, snd (py_input path_prompt (print tip ?w)))"
    by (simp add: py_input_def w_in_def)
  have x: "fs_exists demo_env (Path ''/home/u/a.pdf'') \<and> lower (suffix (Path ''/home/u/a.pdf'')) = ''.pdf''"
    by code_simp
  from t i x v have "get_manual_path demo_env ?w =
      (Inr (Some (Path ''/home/u/a.pdf'')), snd (py_input path_prompt (print tip ?w)))"
    by simp
  then have 6: "fst (get_manual_path demo_env ?w) = Inr (Some (Path ''/home/u/a.pdf''))"
    by simp
  from 1 2 3 4 5 6 show ?thesis by blast
qed


end
